theory Spec2Isabelle
  imports Complex_Main "HOL-Library.Log_Nat" "HOL-Library.AList" "HOL-Library.Multiset"
begin

section \<open>JavaScript values\<close>

subsection \<open>Strings\<close>

text \<open>
  A JavaScript string is a sequence of UTF-16 code units. The column names of the service are
  Chinese, and \<open>trim\<close> and \<open>\s\<close> know white space outside ASCII, so a string is a list of code
  units; \<open>str\<close> embeds an ASCII literal.
\<close>

type_synonym js_string = "nat list"

definition str :: "string \<Rightarrow> js_string" where
  "str s = map of_char s"

definition isWhiteSpace :: "nat \<Rightarrow> bool" where
  \<comment> \<open>WhiteSpace and LineTerminator of ECMAScript: what \<open>trim\<close> removes and \<open>\s\<close> matches.\<close>
  "isWhiteSpace c \<longleftrightarrow>
     c \<in> {0x9, 0xA, 0xB, 0xC, 0xD, 0x20, 0xA0, 0x1680, 0x2028, 0x2029, 0x202F, 0x205F,
          0x3000, 0xFEFF} \<or> (0x2000 \<le> c \<and> c \<le> 0x200A)"

definition trimStart :: "js_string \<Rightarrow> js_string" where
  "trimStart s = dropWhile isWhiteSpace s"

definition trimEnd :: "js_string \<Rightarrow> js_string" where
  "trimEnd s = rev (dropWhile isWhiteSpace (rev s))"

definition trim :: "js_string \<Rightarrow> js_string" where
  "trim s = trimEnd (trimStart s)"

definition replaceAllChar :: "nat \<Rightarrow> js_string \<Rightarrow> js_string \<Rightarrow> js_string" where
  \<comment> \<open>\<open>s.replace(/c/g, t)\<close> for a single code unit \<open>c\<close>.\<close>
  "replaceAllChar c t s = concat (map (\<lambda>x. if x = c then t else [x]) s)"

function collapseWhiteSpace :: "js_string \<Rightarrow> js_string" where
  \<comment> \<open>\<open>s.replace(/\s+/g, ' ')\<close>: every maximal run of white space becomes one space.\<close>
  "collapseWhiteSpace [] = []"
| "collapseWhiteSpace (c # cs) =
     (if isWhiteSpace c then 0x20 # collapseWhiteSpace (dropWhile isWhiteSpace cs)
      else c # collapseWhiteSpace cs)"
  by pat_completeness auto
termination
  by (relation "measure length") (auto simp: less_Suc_eq_le length_dropWhile_le)

subsection \<open>Numbers\<close>

text \<open>
  A JavaScript number is an IEEE 754 double. A finite double is represented by its exact
  rational value; an operation computes the exact result and rounds it to the nearest double,
  ties to the even mantissa, overflowing to an infinity. The sign of zero is not represented:
  no operation of the service observes it.
\<close>

datatype js_number = Fin rat | PosInf | NegInf | NaN

definition pow2 :: "int \<Rightarrow> rat" where
  "pow2 e = (if 0 \<le> e then 2 ^ nat e else 1 / 2 ^ nat (- e))"

definition ilog2 :: "rat \<Rightarrow> int" where
  \<comment> \<open>\<open>\<lfloor>log\<^sub>2 q\<rfloor>\<close> for \<open>q > 0\<close>, from the bit lengths of numerator and denominator.\<close>
  "ilog2 q = (let (a, b) = quotient_of q; k = bitlen a - bitlen b
              in if pow2 k \<le> q then k else k - 1)"

definition round_half_even :: "rat \<Rightarrow> int" where
  "round_half_even x =
     (let f = \<lfloor>x\<rfloor>; d = x - of_int f
      in if d < 1 / 2 then f else if 1 / 2 < d then f + 1 else if even f then f else f + 1)"

definition overflow_threshold :: rat where
  \<comment> \<open>\<open>2^1024\<close>, written out.\<close>
  "overflow_threshold =
     179769313486231590772930519078902473361797697894230657273430081157732675805500963132708477322407536021120113879871393357658789768814416622492847430639474124377767893424865485276302219601246094119453082952085005768838150682342462881473913110540827237163350510684586298239947245938479716304835356329624224137216"

definition round_double :: "rat \<Rightarrow> js_number" where
  \<comment> \<open>53 bits of mantissa, least exponent \<open>-1074\<close>, overflow at \<open>2^1024\<close>.\<close>
  "round_double q =
     (if q = 0 then Fin 0
      else let e = max (ilog2 \<bar>q\<bar> - 52) (- 1074);
               r = of_int (round_half_even (q / pow2 e)) * pow2 e
           in if overflow_threshold \<le> \<bar>r\<bar> then (if 0 < q then PosInf else NegInf) else Fin r)"

definition is_double :: "rat \<Rightarrow> bool" where
  \<comment> \<open>The rational is the value of a finite double.\<close>
  "is_double q \<longleftrightarrow> round_double q = Fin q"

fun jsadd :: "js_number \<Rightarrow> js_number \<Rightarrow> js_number" where
  "jsadd NaN _ = NaN"
| "jsadd _ NaN = NaN"
| "jsadd PosInf NegInf = NaN"
| "jsadd NegInf PosInf = NaN"
| "jsadd PosInf _ = PosInf"
| "jsadd _ PosInf = PosInf"
| "jsadd NegInf _ = NegInf"
| "jsadd _ NegInf = NegInf"
| "jsadd (Fin x) (Fin y) = round_double (x + y)"

fun jsdiv :: "js_number \<Rightarrow> js_number \<Rightarrow> js_number" where
  \<comment> \<open>A zero divisor is taken as \<open>+0\<close>; the service divides by positive counts only.\<close>
  "jsdiv NaN _ = NaN"
| "jsdiv _ NaN = NaN"
| "jsdiv (Fin x) (Fin y) =
     (if y = 0 then (if x = 0 then NaN else if 0 < x then PosInf else NegInf)
      else round_double (x / y))"
| "jsdiv (Fin x) _ = Fin 0"
| "jsdiv PosInf (Fin y) = (if 0 \<le> y then PosInf else NegInf)"
| "jsdiv NegInf (Fin y) = (if 0 \<le> y then NegInf else PosInf)"
| "jsdiv _ _ = NaN"

fun js_le :: "js_number \<Rightarrow> js_number \<Rightarrow> bool" where
  \<comment> \<open>\<open>a <= b\<close>: false as soon as one side is \<open>NaN\<close>.\<close>
  "js_le NaN _ = False"
| "js_le _ NaN = False"
| "js_le NegInf _ = True"
| "js_le _ PosInf = True"
| "js_le (Fin x) (Fin y) = (x \<le> y)"
| "js_le _ _ = False"

fun isFinite :: "js_number \<Rightarrow> bool" where
  "isFinite (Fin _) = True"
| "isFinite _ = False"

subsection \<open>Built-ins and libraries outside the repository\<close>

text \<open>
  The conversions between strings and numbers, the dayjs date parser, the locale-sensitive
  comparison and the path functions of Node are not code of this repository. They are the
  fields of an environment that every function using them takes as its first argument.
  A dayjs value is kept as the three tokens its \<open>format\<close> renders.
\<close>

record dayjs_date =
  token_YYYY :: js_string
  token_MM :: js_string
  token_DD :: js_string

record js_env =
  js_Number :: "js_string \<Rightarrow> js_number"
  js_toFixed :: "js_number \<Rightarrow> nat \<Rightarrow> js_string"
  js_toString :: "js_number \<Rightarrow> js_string"
  dayjs_strict :: "js_string \<Rightarrow> js_string \<Rightarrow> dayjs_date option"
  dayjs_loose :: "js_string \<Rightarrow> dayjs_date option"
  localeCompare :: "js_string \<Rightarrow> js_string \<Rightarrow> int"
  path_dirname :: "js_string \<Rightarrow> js_string"
  path_extname :: "js_string \<Rightarrow> js_string"
  path_basename :: "js_string \<Rightarrow> js_string \<Rightarrow> js_string"
  path_join :: "js_string \<Rightarrow> js_string \<Rightarrow> js_string"

section \<open>Value parsers and formatters\<close>

definition DATE_PATTERNS :: "js_string list" where
  "DATE_PATTERNS =
     [str ''YYYY-MM-DD HH:mm:ss'', str ''YYYY/MM/DD HH:mm:ss'', str ''YYYY-MM-DD HH:mm'',
      str ''YYYY/MM/DD HH:mm'', str ''YYYY-MM-DD'', str ''YYYY/MM/DD'', str ''YYYYMMDDHHmmss'',
      str ''YYYYMMDD'']"

definition format_YYYY_MM_DD :: "dayjs_date \<Rightarrow> js_string" where
  \<comment> \<open>\<open>parsed.format('YYYY-MM-DD')\<close>\<close>
  "format_YYYY_MM_DD d = token_YYYY d @ str ''-'' @ token_MM d @ str ''-'' @ token_DD d"

fun firstValidPattern :: "js_env \<Rightarrow> js_string \<Rightarrow> js_string list \<Rightarrow> dayjs_date option" where
  "firstValidPattern env raw [] = None"
| "firstValidPattern env raw (pattern # rest) =
     (case dayjs_strict env raw pattern of
        Some parsed \<Rightarrow> Some parsed
      | None \<Rightarrow> firstValidPattern env raw rest)"

definition parseDateToDay :: "js_env \<Rightarrow> js_string \<Rightarrow> js_string option" where
  "parseDateToDay env v =
     (let raw = trim v
      in if raw = [] then None
         else case firstValidPattern env raw DATE_PATTERNS of
                Some parsed \<Rightarrow> Some (format_YYYY_MM_DD parsed)
              | None \<Rightarrow>
                  (case dayjs_loose env raw of
                     Some fallback \<Rightarrow> Some (format_YYYY_MM_DD fallback)
                   | None \<Rightarrow> None))"

definition cleanNumeric :: "js_string \<Rightarrow> js_string" where
  \<comment> \<open>\<open>value.trim().replace(/,/g, '').replace(/%/g, '')\<close>\<close>
  "cleanNumeric v = replaceAllChar 0x25 [] (replaceAllChar 0x2C [] (trim v))"

definition parseNumeric :: "js_env \<Rightarrow> js_string option \<Rightarrow> js_number option" where
  \<comment> \<open>The argument \<open>None\<close> is \<open>undefined\<close>; the result \<open>None\<close> is \<open>null\<close>.\<close>
  "parseNumeric env v =
     (case v of
        None \<Rightarrow> None
      | Some s \<Rightarrow>
          (let cleaned = cleanNumeric s
           in if cleaned = [] then None
              else let num = js_Number env cleaned
                   in if \<not> isFinite num then None else Some num))"

definition formatNumber :: "js_env \<Rightarrow> js_number \<Rightarrow> js_string" where
  "formatNumber env v =
     (if \<not> isFinite v then [] else js_toString env (js_Number env (js_toFixed env v 6)))"

definition formatAverage :: "js_env \<Rightarrow> js_number \<Rightarrow> js_number \<Rightarrow> js_string" where
  "formatAverage env sumv countv =
     (if js_le countv (Fin 0) then [] else formatNumber env (jsdiv sumv countv))"

section \<open>Aggregation buckets\<close>

record AggBucket =
  date :: js_string
  network :: js_string
  flowSum :: js_number
  maxUserSum :: js_number
  ulPrbSum :: js_number
  ulPrbCount :: js_number
  dlPrbSum :: js_number
  dlPrbCount :: js_number
  ulRateSum :: js_number
  ulRateCount :: js_number
  dlRateSum :: js_number
  dlRateCount :: js_number
  accessRateSum :: js_number
  accessRateCount :: js_number
  dropRateSum :: js_number
  dropRateCount :: js_number
  handoverRateSum :: js_number
  handoverRateCount :: js_number
  interferenceSum :: js_number
  interferenceCount :: js_number

text \<open>The numeric keys of a bucket, for the accesses \<open>bucket[fieldKey]\<close> of \<open>addAvgField\<close>.\<close>

datatype bucket_key =
  K_flowSum | K_maxUserSum
| K_ulPrbSum | K_ulPrbCount | K_dlPrbSum | K_dlPrbCount
| K_ulRateSum | K_ulRateCount | K_dlRateSum | K_dlRateCount
| K_accessRateSum | K_accessRateCount | K_dropRateSum | K_dropRateCount
| K_handoverRateSum | K_handoverRateCount | K_interferenceSum | K_interferenceCount

fun getField :: "bucket_key \<Rightarrow> AggBucket \<Rightarrow> js_number" where
  "getField K_flowSum b = flowSum b"
| "getField K_maxUserSum b = maxUserSum b"
| "getField K_ulPrbSum b = ulPrbSum b"
| "getField K_ulPrbCount b = ulPrbCount b"
| "getField K_dlPrbSum b = dlPrbSum b"
| "getField K_dlPrbCount b = dlPrbCount b"
| "getField K_ulRateSum b = ulRateSum b"
| "getField K_ulRateCount b = ulRateCount b"
| "getField K_dlRateSum b = dlRateSum b"
| "getField K_dlRateCount b = dlRateCount b"
| "getField K_accessRateSum b = accessRateSum b"
| "getField K_accessRateCount b = accessRateCount b"
| "getField K_dropRateSum b = dropRateSum b"
| "getField K_dropRateCount b = dropRateCount b"
| "getField K_handoverRateSum b = handoverRateSum b"
| "getField K_handoverRateCount b = handoverRateCount b"
| "getField K_interferenceSum b = interferenceSum b"
| "getField K_interferenceCount b = interferenceCount b"

fun setField :: "bucket_key \<Rightarrow> js_number \<Rightarrow> AggBucket \<Rightarrow> AggBucket" where
  "setField K_flowSum v b = b\<lparr>flowSum := v\<rparr>"
| "setField K_maxUserSum v b = b\<lparr>maxUserSum := v\<rparr>"
| "setField K_ulPrbSum v b = b\<lparr>ulPrbSum := v\<rparr>"
| "setField K_ulPrbCount v b = b\<lparr>ulPrbCount := v\<rparr>"
| "setField K_dlPrbSum v b = b\<lparr>dlPrbSum := v\<rparr>"
| "setField K_dlPrbCount v b = b\<lparr>dlPrbCount := v\<rparr>"
| "setField K_ulRateSum v b = b\<lparr>ulRateSum := v\<rparr>"
| "setField K_ulRateCount v b = b\<lparr>ulRateCount := v\<rparr>"
| "setField K_dlRateSum v b = b\<lparr>dlRateSum := v\<rparr>"
| "setField K_dlRateCount v b = b\<lparr>dlRateCount := v\<rparr>"
| "setField K_accessRateSum v b = b\<lparr>accessRateSum := v\<rparr>"
| "setField K_accessRateCount v b = b\<lparr>accessRateCount := v\<rparr>"
| "setField K_dropRateSum v b = b\<lparr>dropRateSum := v\<rparr>"
| "setField K_dropRateCount v b = b\<lparr>dropRateCount := v\<rparr>"
| "setField K_handoverRateSum v b = b\<lparr>handoverRateSum := v\<rparr>"
| "setField K_handoverRateCount v b = b\<lparr>handoverRateCount := v\<rparr>"
| "setField K_interferenceSum v b = b\<lparr>interferenceSum := v\<rparr>"
| "setField K_interferenceCount v b = b\<lparr>interferenceCount := v\<rparr>"

definition addAvgField ::
  "AggBucket \<Rightarrow> bucket_key \<Rightarrow> bucket_key \<Rightarrow> js_number option \<Rightarrow> AggBucket \<times> bool" where
  \<comment> \<open>The bucket is mutated in place in the source; here the updated bucket is returned
     beside the boolean result.\<close>
  "addAvgField bucket fieldKey countKey v =
     (case v of
        None \<Rightarrow> (bucket, False)
      | Some x \<Rightarrow>
          (let current = getField fieldKey bucket;
               currentCount = getField countKey bucket;
               bucket1 = setField fieldKey (jsadd current x) bucket;
               bucket2 = setField countKey (jsadd currentCount (Fin 1)) bucket1
           in (bucket2, True)))"

definition createEmptyBucket :: "js_string \<Rightarrow> js_string \<Rightarrow> AggBucket" where
  "createEmptyBucket d n =
     \<lparr>date = d, network = n, flowSum = Fin 0, maxUserSum = Fin 0,
      ulPrbSum = Fin 0, ulPrbCount = Fin 0, dlPrbSum = Fin 0, dlPrbCount = Fin 0,
      ulRateSum = Fin 0, ulRateCount = Fin 0, dlRateSum = Fin 0, dlRateCount = Fin 0,
      accessRateSum = Fin 0, accessRateCount = Fin 0, dropRateSum = Fin 0, dropRateCount = Fin 0,
      handoverRateSum = Fin 0, handoverRateCount = Fin 0,
      interferenceSum = Fin 0, interferenceCount = Fin 0\<rparr>"

definition mergeBucket :: "AggBucket \<Rightarrow> AggBucket \<Rightarrow> AggBucket" where
  \<comment> \<open>\<open>mergeBucket(target, source)\<close> mutates \<open>target\<close>; the updated target is returned.\<close>
  "mergeBucket target source =
     target\<lparr>flowSum := jsadd (flowSum target) (flowSum source),
            maxUserSum := jsadd (maxUserSum target) (maxUserSum source),
            ulPrbSum := jsadd (ulPrbSum target) (ulPrbSum source),
            ulPrbCount := jsadd (ulPrbCount target) (ulPrbCount source),
            dlPrbSum := jsadd (dlPrbSum target) (dlPrbSum source),
            dlPrbCount := jsadd (dlPrbCount target) (dlPrbCount source),
            ulRateSum := jsadd (ulRateSum target) (ulRateSum source),
            ulRateCount := jsadd (ulRateCount target) (ulRateCount source),
            dlRateSum := jsadd (dlRateSum target) (dlRateSum source),
            dlRateCount := jsadd (dlRateCount target) (dlRateCount source),
            accessRateSum := jsadd (accessRateSum target) (accessRateSum source),
            accessRateCount := jsadd (accessRateCount target) (accessRateCount source),
            dropRateSum := jsadd (dropRateSum target) (dropRateSum source),
            dropRateCount := jsadd (dropRateCount target) (dropRateCount source),
            handoverRateSum := jsadd (handoverRateSum target) (handoverRateSum source),
            handoverRateCount := jsadd (handoverRateCount target) (handoverRateCount source),
            interferenceSum := jsadd (interferenceSum target) (interferenceSum source),
            interferenceCount := jsadd (interferenceCount target) (interferenceCount source)\<rparr>"

definition mergeAll :: "AggBucket \<Rightarrow> AggBucket list \<Rightarrow> AggBucket" where
  \<comment> \<open>The loops \<open>for (const item of \<dots>) mergeBucket(target, item)\<close> of \<open>buildOutputRows\<close>.\<close>
  "mergeAll target items = foldl mergeBucket target items"

text \<open>
  For the statements about merging: the eighteen numeric keys, the buckets all of whose finite
  fields are values of doubles, as every bucket of the program is, and the lists of buckets
  whose fields are integers that add up without rounding.
\<close>

definition allKeys :: "bucket_key list" where
  "allKeys =
     [K_flowSum, K_maxUserSum, K_ulPrbSum, K_ulPrbCount, K_dlPrbSum, K_dlPrbCount, K_ulRateSum,
      K_ulRateCount, K_dlRateSum, K_dlRateCount, K_accessRateSum, K_accessRateCount,
      K_dropRateSum, K_dropRateCount, K_handoverRateSum, K_handoverRateCount,
      K_interferenceSum, K_interferenceCount]"

definition isDoubleValue :: "js_number \<Rightarrow> bool" where
  "isDoubleValue v = (case v of Fin q \<Rightarrow> is_double q | _ \<Rightarrow> True)"

definition doubleFields :: "AggBucket \<Rightarrow> bool" where
  "doubleFields b = list_all (\<lambda>k. isDoubleValue (getField k b)) allKeys"

definition fieldInt :: "bucket_key \<Rightarrow> AggBucket \<Rightarrow> int" where
  "fieldInt k b = (case getField k b of Fin q \<Rightarrow> \<lfloor>q\<rfloor> | _ \<Rightarrow> 0)"

definition isInteger :: "js_number \<Rightarrow> bool" where
  "isInteger v = (case v of Fin q \<Rightarrow> q = of_int \<lfloor>q\<rfloor> | _ \<Rightarrow> False)"

definition integerValued :: "AggBucket \<Rightarrow> bool" where
  "integerValued b = list_all (\<lambda>k. isInteger (getField k b)) allKeys"

definition absTotal :: "bucket_key \<Rightarrow> AggBucket list \<Rightarrow> int" where
  \<comment> \<open>The absolute values of one field over a list of buckets, added up.\<close>
  "absTotal k bs = (\<Sum>b\<leftarrow>bs. \<bar>fieldInt k b\<bar>)"

definition exactTotals :: "AggBucket list \<Rightarrow> bool" where
  \<comment> \<open>Every field of every bucket is an integer, and no field adds up to \<open>2^53\<close> or more.\<close>
  "exactTotals bs \<longleftrightarrow>
     list_all integerValued bs \<and> list_all (\<lambda>k. absTotal k bs < 2 ^ 53) allKeys"

definition flowBucket :: "js_string \<Rightarrow> js_string \<Rightarrow> js_number \<Rightarrow> AggBucket" where
  \<comment> \<open>The bucket of one record with a valid traffic cell and no other valid numeric cell.\<close>
  "flowBucket d n v = (createEmptyBucket d n)\<lparr>flowSum := v\<rparr>"

section \<open>Output rows\<close>

text \<open>
  An output row maps the twelve output columns to strings; the fields stand for the columns
  in the order of \<open>OUTPUT_COLUMNS\<close>.
\<close>

record OutputRow =
  col_time :: js_string
  col_network :: js_string
  col_flow :: js_string
  col_maxUser :: js_string
  col_ulPrb :: js_string
  col_dlPrb :: js_string
  col_ulRate :: js_string
  col_dlRate :: js_string
  col_accessRate :: js_string
  col_dropRate :: js_string
  col_handoverRate :: js_string
  col_interference :: js_string

definition GRAND_TOTAL_LABEL :: js_string where
  "GRAND_TOTAL_LABEL = [0x603B, 0x8BA1]"

definition toOutputRow ::
  "js_env \<Rightarrow> AggBucket \<Rightarrow> js_string option \<Rightarrow> js_string option \<Rightarrow> OutputRow" where
  \<comment> \<open>An omitted optional argument is \<open>None\<close>; \<open>??\<close> falls back to the bucket's own field.\<close>
  "toOutputRow env item dateValue networkValue =
     \<lparr>col_time = (case dateValue of None \<Rightarrow> date item | Some d \<Rightarrow> d),
      col_network = (case networkValue of None \<Rightarrow> network item | Some n \<Rightarrow> n),
      col_flow = formatNumber env (flowSum item),
      col_maxUser = formatNumber env (maxUserSum item),
      col_ulPrb = formatAverage env (ulPrbSum item) (ulPrbCount item),
      col_dlPrb = formatAverage env (dlPrbSum item) (dlPrbCount item),
      col_ulRate = formatAverage env (ulRateSum item) (ulRateCount item),
      col_dlRate = formatAverage env (dlRateSum item) (dlRateCount item),
      col_accessRate = formatAverage env (accessRateSum item) (accessRateCount item),
      col_dropRate = formatAverage env (dropRateSum item) (dropRateCount item),
      col_handoverRate = formatAverage env (handoverRateSum item) (handoverRateCount item),
      col_interference = formatAverage env (interferenceSum item) (interferenceCount item)\<rparr>"

definition numericCells :: "OutputRow \<Rightarrow> js_string list" where
  \<comment> \<open>The ten numeric cells of a row, in column order.\<close>
  "numericCells r =
     [col_flow r, col_maxUser r, col_ulPrb r, col_dlPrb r, col_ulRate r, col_dlRate r,
      col_accessRate r, col_dropRate r, col_handoverRate r, col_interference r]"

section \<open>Columns and header\<close>

definition COL_time :: js_string where
  "COL_time = [0x65F6, 0x95F4]"

definition COL_CI :: js_string where
  "COL_CI = str ''CI''"

definition COL_network :: js_string where
  "COL_network = [0x7F51, 0x7EDC]"

definition COL_cellName :: js_string where
  "COL_cellName = [0x5C0F, 0x533A, 0x540D, 0x79F0]"

definition COL_flow :: js_string where
  "COL_flow = str ''5G'' @ [0x603B, 0x6D41, 0x91CF] @ str ''(GB)''"

definition COL_maxUser :: js_string where
  "COL_maxUser = str ''5G'' @ [0x6700, 0x5927, 0x7528, 0x6237, 0x6570]"

definition COL_ulPrb :: js_string where
  "COL_ulPrb = str ''5G'' @ [0x4E0A, 0x884C] @ str ''PRB'' @ [0x5229, 0x7528, 0x7387] @ str ''(%)''"

definition COL_dlPrb :: js_string where
  "COL_dlPrb = str ''5G'' @ [0x4E0B, 0x884C] @ str ''PRB'' @ [0x5229, 0x7528, 0x7387] @ str ''(%)''"

definition COL_ulRate :: js_string where
  "COL_ulRate = str ''5G'' @ [0x4E0A, 0x884C, 0x4F53, 0x9A8C, 0x901F, 0x7387] @ str ''(Mbps)''"

definition COL_dlRate :: js_string where
  "COL_dlRate = str ''5G'' @ [0x4E0B, 0x884C, 0x4F53, 0x9A8C, 0x901F, 0x7387] @ str ''(Mbps)''"

definition COL_accessRate :: js_string where
  "COL_accessRate = str ''5G'' @ [0x65E0, 0x7EBF, 0x63A5, 0x901A, 0x7387] @ str ''(%)''"

definition COL_dropRate :: js_string where
  "COL_dropRate = str ''5G'' @ [0x65E0, 0x7EBF, 0x6389, 0x7EBF, 0x7387] @ str ''(%)''"

definition COL_handoverRate :: js_string where
  "COL_handoverRate = str ''5G'' @ [0x5207, 0x6362, 0x6210, 0x529F, 0x7387] @ str ''(%)''"

definition COL_interference :: js_string where
  "COL_interference =
     str ''5G'' @ [0x4E0A, 0x884C, 0x5E73, 0x5747, 0x5E72, 0x6270] @ str ''(dBm)''"

definition REQUIRED_COLUMNS :: "js_string list" where
  "REQUIRED_COLUMNS =
     [COL_time, COL_CI, COL_network, COL_cellName, COL_flow, COL_maxUser, COL_ulPrb, COL_dlPrb,
      COL_ulRate, COL_dlRate, COL_accessRate, COL_dropRate, COL_handoverRate, COL_interference]"

definition stripBOM :: "js_string \<Rightarrow> js_string" where
  \<comment> \<open>\<open>value.replace(/^\uFEFF/, '')\<close>\<close>
  "stripBOM s = (case s of [] \<Rightarrow> [] | c # cs \<Rightarrow> if c = 0xFEFF then cs else s)"

definition normalizeHeader :: "js_string \<Rightarrow> js_string" where
  "normalizeHeader v =
     trim (collapseWhiteSpace
       (replaceAllChar 0xFF09 (str '')'') (replaceAllChar 0xFF08 (str ''('') (stripBOM v))))"

definition getMissingColumns :: "js_string list \<Rightarrow> js_string list" where
  "getMissingColumns header =
     (let normalizedHeader = map normalizeHeader header
      in filter (\<lambda>column. normalizeHeader column \<notin> set normalizedHeader) REQUIRED_COLUMNS)"

section \<open>The aggregation pass\<close>

record colIndex =
  ci_time :: int
  ci_network :: int
  ci_flow :: int
  ci_maxUser :: int
  ci_ulPrb :: int
  ci_dlPrb :: int
  ci_ulRate :: int
  ci_dlRate :: int
  ci_accessRate :: int
  ci_dropRate :: int
  ci_handoverRate :: int
  ci_interference :: int

definition indexMap :: "js_string list \<Rightarrow> (js_string \<rightharpoonup> nat)" where
  \<comment> \<open>\<open>normalizedHeader.forEach((col, idx) => indexMap.set(col, idx))\<close>: the last index of
     a repeated name wins.\<close>
  "indexMap normalizedHeader =
     fold (\<lambda>(col, idx) m. m(col \<mapsto> idx)) (zip normalizedHeader [0..<length normalizedHeader])
       Map.empty"

definition indexOr :: "(js_string \<rightharpoonup> nat) \<Rightarrow> js_string \<Rightarrow> int" where
  \<comment> \<open>\<open>indexMap.get(name) ?? -1\<close>\<close>
  "indexOr m name = (case m name of None \<Rightarrow> - 1 | Some idx \<Rightarrow> int idx)"

definition buildColIndex :: "js_string list \<Rightarrow> colIndex" where
  "buildColIndex header =
     (let m = indexMap (map normalizeHeader header)
      in \<lparr>ci_time = indexOr m COL_time, ci_network = indexOr m COL_network,
          ci_flow = indexOr m COL_flow, ci_maxUser = indexOr m COL_maxUser,
          ci_ulPrb = indexOr m COL_ulPrb, ci_dlPrb = indexOr m COL_dlPrb,
          ci_ulRate = indexOr m COL_ulRate, ci_dlRate = indexOr m COL_dlRate,
          ci_accessRate = indexOr m COL_accessRate, ci_dropRate = indexOr m COL_dropRate,
          ci_handoverRate = indexOr m COL_handoverRate,
          ci_interference = indexOr m COL_interference\<rparr>)"

definition cellAt :: "js_string list \<Rightarrow> int \<Rightarrow> js_string option" where
  \<comment> \<open>\<open>row[i]\<close>: \<open>undefined\<close> (here \<open>None\<close>) for \<open>-1\<close> and beyond the end of the row.\<close>
  "cellAt row i = (if 0 \<le> i \<and> nat i < length row then Some (row ! nat i) else None)"

definition orEmpty :: "js_string option \<Rightarrow> js_string" where
  \<comment> \<open>\<open>x ?? ''\<close>\<close>
  "orEmpty x = (case x of None \<Rightarrow> [] | Some s \<Rightarrow> s)"

text \<open>
  The row counters are natural numbers: a double counts exactly up to \<open>2^53\<close> rows, which no
  file reaches. \<open>invalidFieldStats\<close> is the object literal of the source, an association list
  in the order of its keys. Only these keys are ever incremented (lemma \<open>bump_keys\<close> below keeps
  the key list fixed), so the case of \<open>+= 1\<close> on a missing key does not arise.
\<close>

type_synonym stats = "(js_string \<times> nat) list"

definition initialInvalidFieldStats :: stats where
  "initialInvalidFieldStats =
     [(COL_time, 0), (COL_network, 0), (COL_flow, 0), (COL_maxUser, 0), (COL_ulPrb, 0),
      (COL_dlPrb, 0), (COL_ulRate, 0), (COL_dlRate, 0), (COL_accessRate, 0), (COL_dropRate, 0),
      (COL_handoverRate, 0), (COL_interference, 0)]"

definition bump :: "js_string \<Rightarrow> stats \<Rightarrow> stats" where
  \<comment> \<open>\<open>invalidFieldStats[key] += 1\<close>\<close>
  "bump key st = AList.map_entry key Suc st"

record parse_state =
  buckets :: "(js_string \<times> AggBucket) list"
  processedRows :: nat
  skippedRows :: nat
  invalidFieldStats :: stats
  isHeader :: bool

definition initialState :: parse_state where
  "initialState =
     \<lparr>buckets = [], processedRows = 0, skippedRows = 0,
      invalidFieldStats = initialInvalidFieldStats, isHeader = True\<rparr>"

definition skipRow :: "js_string \<Rightarrow> parse_state \<Rightarrow> parse_state" where
  \<comment> \<open>\<open>invalidFieldStats[name] += 1; skippedRows += 1; continue\<close>\<close>
  "skipRow name st =
     st\<lparr>invalidFieldStats := bump name (invalidFieldStats st), skippedRows := skippedRows st + 1\<rparr>"

definition sumStep ::
  "js_env \<Rightarrow> js_string list \<Rightarrow> int \<Rightarrow> bucket_key \<Rightarrow> js_string \<Rightarrow> AggBucket \<times> stats
     \<Rightarrow> AggBucket \<times> stats" where
  \<comment> \<open>\<open>const v = parseNumeric(row[i]); if (v === null) stats[name] += 1 else bucket.f += v\<close>,
     the statement of the two summed columns.\<close>
  "sumStep env row i fieldKey name bs =
     (case parseNumeric env (cellAt row i) of
        None \<Rightarrow> (fst bs, bump name (snd bs))
      | Some v \<Rightarrow> (setField fieldKey (jsadd (getField fieldKey (fst bs)) v) (fst bs), snd bs))"

definition avgStep ::
  "js_env \<Rightarrow> js_string list \<Rightarrow> int \<Rightarrow> bucket_key \<Rightarrow> bucket_key \<Rightarrow> js_string
     \<Rightarrow> AggBucket \<times> stats \<Rightarrow> AggBucket \<times> stats" where
  \<comment> \<open>\<open>if (!addAvgField(bucket, f, c, parseNumeric(row[i]))) stats[name] += 1\<close>, the statement
     of the eight averaged columns.\<close>
  "avgStep env row i fieldKey countKey name bs =
     (case addAvgField (fst bs) fieldKey countKey (parseNumeric env (cellAt row i)) of
        (bucket', ok) \<Rightarrow> (bucket', if \<not> ok then bump name (snd bs) else snd bs))"

definition accumulate ::
  "js_env \<Rightarrow> colIndex \<Rightarrow> js_string list \<Rightarrow> AggBucket \<times> stats \<Rightarrow> AggBucket \<times> stats" where
  \<comment> \<open>The ten statements of the loop body between fetching the bucket and storing it.\<close>
  "accumulate env ci row =
     avgStep env row (ci_interference ci) K_interferenceSum K_interferenceCount COL_interference
     \<circ> avgStep env row (ci_handoverRate ci) K_handoverRateSum K_handoverRateCount COL_handoverRate
     \<circ> avgStep env row (ci_dropRate ci) K_dropRateSum K_dropRateCount COL_dropRate
     \<circ> avgStep env row (ci_accessRate ci) K_accessRateSum K_accessRateCount COL_accessRate
     \<circ> avgStep env row (ci_dlRate ci) K_dlRateSum K_dlRateCount COL_dlRate
     \<circ> avgStep env row (ci_ulRate ci) K_ulRateSum K_ulRateCount COL_ulRate
     \<circ> avgStep env row (ci_dlPrb ci) K_dlPrbSum K_dlPrbCount COL_dlPrb
     \<circ> avgStep env row (ci_ulPrb ci) K_ulPrbSum K_ulPrbCount COL_ulPrb
     \<circ> sumStep env row (ci_maxUser ci) K_maxUserSum COL_maxUser
     \<circ> sumStep env row (ci_flow ci) K_flowSum COL_flow"

definition bucketKey :: "js_string \<Rightarrow> js_string \<Rightarrow> js_string" where
  \<comment> \<open>\<open>`${day}__${networkRaw}`\<close>\<close>
  "bucketKey day networkRaw = day @ str ''__'' @ networkRaw"

definition rowDay :: "js_env \<Rightarrow> colIndex \<Rightarrow> js_string list \<Rightarrow> js_string option" where
  \<comment> \<open>\<open>parseDateToDay(row[colIndex.time] ?? '')\<close>\<close>
  "rowDay env ci row = parseDateToDay env (orEmpty (cellAt row (ci_time ci)))"

definition rowNetwork :: "colIndex \<Rightarrow> js_string list \<Rightarrow> js_string" where
  \<comment> \<open>\<open>(row[colIndex.network] ?? '').trim()\<close>\<close>
  "rowNetwork ci row = trim (orEmpty (cellAt row (ci_network ci)))"

definition currentBucket :: "parse_state \<Rightarrow> js_string \<Rightarrow> js_string \<Rightarrow> AggBucket" where
  \<comment> \<open>\<open>buckets.get(key) ?? createEmptyBucket(day, networkRaw)\<close>\<close>
  "currentBucket st day networkRaw =
     (case map_of (buckets st) (bucketKey day networkRaw) of
        Some b \<Rightarrow> b
      | None \<Rightarrow> createEmptyBucket day networkRaw)"

definition processRow :: "js_env \<Rightarrow> colIndex \<Rightarrow> parse_state \<Rightarrow> js_string list \<Rightarrow> parse_state" where
  \<comment> \<open>One turn of \<open>while ((row = parser.read()) !== null)\<close>. The test \<open>!day\<close> holds for
     \<open>null\<close> and for the empty string.\<close>
  "processRow env ci st row =
     (if isHeader st then st\<lparr>isHeader := False\<rparr>
      else
        let st1 = st\<lparr>processedRows := processedRows st + 1\<rparr>;
            networkRaw = rowNetwork ci row
        in case rowDay env ci row of
             None \<Rightarrow> skipRow COL_time st1
           | Some day \<Rightarrow>
               if day = [] then skipRow COL_time st1
               else if networkRaw = [] then skipRow COL_network st1
               else
                 let key = bucketKey day networkRaw;
                     bucket = currentBucket st1 day networkRaw;
                     (bucket', stats') = accumulate env ci row (bucket, invalidFieldStats st1)
                 in st1\<lparr>invalidFieldStats := stats',
                         buckets := AList.update key bucket' (buckets st1)\<rparr>)"

definition parseDataRows :: "js_env \<Rightarrow> js_string list \<Rightarrow> js_string list list \<Rightarrow> parse_state" where
  \<comment> \<open>\<open>header\<close> is \<open>preview.previewRows[0] ?? []\<close>; \<open>rows\<close> are the records the parser emits
     for the whole file, the header record first.\<close>
  "parseDataRows env header rows = foldl (processRow env (buildColIndex header)) initialState rows"

text \<open>
  For the statements about the pass: the count stored under a key, and the ten numeric columns
  with their index in a record and the bucket keys they feed, in the order of the ten
  statements of the loop body (lemma \<open>accumulate_fold\<close> ties the table to them).
\<close>

definition invalidCount :: "stats \<Rightarrow> js_string \<Rightarrow> nat" where
  "invalidCount s name = (case map_of s name of None \<Rightarrow> 0 | Some n \<Rightarrow> n)"

definition numericColumns ::
  "colIndex \<Rightarrow> (js_string \<times> int \<times> bucket_key \<times> bucket_key option) list" where
  "numericColumns ci =
     [(COL_flow, ci_flow ci, K_flowSum, None),
      (COL_maxUser, ci_maxUser ci, K_maxUserSum, None),
      (COL_ulPrb, ci_ulPrb ci, K_ulPrbSum, Some K_ulPrbCount),
      (COL_dlPrb, ci_dlPrb ci, K_dlPrbSum, Some K_dlPrbCount),
      (COL_ulRate, ci_ulRate ci, K_ulRateSum, Some K_ulRateCount),
      (COL_dlRate, ci_dlRate ci, K_dlRateSum, Some K_dlRateCount),
      (COL_accessRate, ci_accessRate ci, K_accessRateSum, Some K_accessRateCount),
      (COL_dropRate, ci_dropRate ci, K_dropRateSum, Some K_dropRateCount),
      (COL_handoverRate, ci_handoverRate ci, K_handoverRateSum, Some K_handoverRateCount),
      (COL_interference, ci_interference ci, K_interferenceSum, Some K_interferenceCount)]"

definition columnStep ::
  "js_env \<Rightarrow> js_string list \<Rightarrow> js_string \<times> int \<times> bucket_key \<times> bucket_key option
     \<Rightarrow> AggBucket \<times> stats \<Rightarrow> AggBucket \<times> stats" where
  "columnStep env row col bs =
     (case col of
        (name, i, sumKey, None) \<Rightarrow> sumStep env row i sumKey name bs
      | (name, i, sumKey, Some countKey) \<Rightarrow> avgStep env row i sumKey countKey name bs)"

definition keysOf :: "js_string \<times> int \<times> bucket_key \<times> bucket_key option \<Rightarrow> bucket_key list" where
  "keysOf col =
     (case col of (name, i, sumKey, countKey) \<Rightarrow>
        sumKey # (case countKey of None \<Rightarrow> [] | Some ck \<Rightarrow> [ck]))"

definition skippedFor :: "js_string \<Rightarrow> parse_state \<Rightarrow> parse_state \<Rightarrow> bool" where
  \<comment> \<open>From \<open>st\<close> to \<open>st'\<close> a row was dropped for the column \<open>name\<close>: one more skipped row, one
     more invalid value under \<open>name\<close> and under no other key, the buckets untouched.\<close>
  "skippedFor name st st' \<longleftrightarrow>
     skippedRows st' = skippedRows st + 1 \<and> buckets st' = buckets st \<and>
     (\<forall>k. invalidCount (invalidFieldStats st') k =
            invalidCount (invalidFieldStats st) k + (if k = name then 1 else 0))"

definition INVALID_KEYS :: "js_string list" where
  \<comment> \<open>The keys of the object literal \<open>invalidFieldStats\<close>, in its order.\<close>
  "INVALID_KEYS =
     [COL_time, COL_network, COL_flow, COL_maxUser, COL_ulPrb, COL_dlPrb, COL_ulRate,
      COL_dlRate, COL_accessRate, COL_dropRate, COL_handoverRate, COL_interference]"

section \<open>Building the output rows\<close>

record AggregationOutputOptions =
  includeDailySubtotalRows :: "bool option"
  includeGrandTotalRow :: "bool option"
  blankDateForDetailRowsWhenSubtotalEnabled :: "bool option"

text \<open>
  \<open>Array.prototype.sort\<close> with a comparison function is a stable sort. Insertion from the
  right is one; every stable sort returns the same list when the comparison is consistent.
\<close>

fun insertBy :: "('a \<Rightarrow> 'a \<Rightarrow> int) \<Rightarrow> 'a \<Rightarrow> 'a list \<Rightarrow> 'a list" where
  "insertBy cmp x [] = [x]"
| "insertBy cmp x (y # ys) = (if cmp x y \<le> 0 then x # y # ys else y # insertBy cmp x ys)"

definition sortBy :: "('a \<Rightarrow> 'a \<Rightarrow> int) \<Rightarrow> 'a list \<Rightarrow> 'a list" where
  "sortBy cmp xs = foldr (insertBy cmp) xs []"

definition compareBuckets :: "js_env \<Rightarrow> AggBucket \<Rightarrow> AggBucket \<Rightarrow> int" where
  "compareBuckets env a b =
     (if date a = date b then localeCompare env (network a) (network b)
      else localeCompare env (date a) (date b))"

definition compareNetwork :: "js_env \<Rightarrow> AggBucket \<Rightarrow> AggBucket \<Rightarrow> int" where
  "compareNetwork env a b = localeCompare env (network a) (network b)"

definition compareEntry ::
  "js_env \<Rightarrow> js_string \<times> AggBucket list \<Rightarrow> js_string \<times> AggBucket list \<Rightarrow> int" where
  "compareEntry env a b = localeCompare env (fst a) (fst b)"

definition groupByDate :: "AggBucket list \<Rightarrow> (js_string \<times> AggBucket list) list" where
  \<comment> \<open>The map \<open>byDate\<close>, in insertion order of its keys.\<close>
  "groupByDate items =
     fold (\<lambda>item byDate.
             let list = (case map_of byDate (date item) of None \<Rightarrow> [] | Some l \<Rightarrow> l)
             in AList.update (date item) (list @ [item]) byDate)
       items []"

definition subtotalRow :: "js_env \<Rightarrow> js_string \<Rightarrow> AggBucket list \<Rightarrow> OutputRow" where
  "subtotalRow env d dateBuckets =
     toOutputRow env (mergeAll (createEmptyBucket d []) dateBuckets) (Some d) (Some [])"

definition detailRow :: "js_env \<Rightarrow> bool \<Rightarrow> js_string \<Rightarrow> AggBucket \<Rightarrow> OutputRow" where
  "detailRow env blankDate d item =
     toOutputRow env item (Some (if blankDate then [] else d)) (Some (network item))"

definition grandTotalRow :: "js_env \<Rightarrow> AggBucket list \<Rightarrow> OutputRow" where
  "grandTotalRow env sortedBuckets =
     toOutputRow env (mergeAll (createEmptyBucket [] []) sortedBuckets) (Some GRAND_TOTAL_LABEL)
       (Some [])"

definition optFlag :: "AggregationOutputOptions option \<Rightarrow> (AggregationOutputOptions \<Rightarrow> bool option)
    \<Rightarrow> bool \<Rightarrow> bool" where
  \<comment> \<open>\<open>options?.field ?? dflt\<close>; \<open>Boolean(options?.field)\<close> is the case \<open>dflt = False\<close>.\<close>
  "optFlag options field dflt =
     (case options of
        None \<Rightarrow> dflt
      | Some opts \<Rightarrow> (case field opts of None \<Rightarrow> dflt | Some v \<Rightarrow> v))"

definition sortedBuckets :: "js_env \<Rightarrow> (js_string \<times> AggBucket) list \<Rightarrow> AggBucket list" where
  \<comment> \<open>\<open>[...buckets.values()].sort(\<dots>)\<close>: the values in insertion order, sorted.\<close>
  "sortedBuckets env bucketMap = sortBy (compareBuckets env) (map snd bucketMap)"

definition buildOutputRows ::
  "js_env \<Rightarrow> (js_string \<times> AggBucket) list \<Rightarrow> AggregationOutputOptions option \<Rightarrow> OutputRow list" where
  "buildOutputRows env bucketMap options =
     (let sorted = sortedBuckets env bucketMap;
          subtotals = optFlag options includeDailySubtotalRows False;
          grandTotal = optFlag options includeGrandTotalRow False;
          blankDate = optFlag options blankDateForDetailRowsWhenSubtotalEnabled True;
          outputRows =
            (if \<not> subtotals then map (\<lambda>item. toOutputRow env item None None) sorted
             else concat (map (\<lambda>(d, dateBuckets).
                                 subtotalRow env d dateBuckets
                                 # map (detailRow env blankDate d)
                                     (sortBy (compareNetwork env) dateBuckets))
                            (sortBy (compareEntry env) (groupByDate sorted))))
      in if grandTotal then outputRows @ [grandTotalRow env sorted] else outputRows)"

text \<open>
  For the statements about the rows: a comparison that is a total preorder, as a consistent
  comparison function is; a list ascending in it; the buckets of one date in the order in
  which they are merged; the rows of one date; and the marks that tell the detail row of a
  bucket from a synthesized row.
\<close>

definition consistentCompare :: "('a \<Rightarrow> 'a \<Rightarrow> int) \<Rightarrow> bool" where
  "consistentCompare cmp \<longleftrightarrow>
     (\<forall>a b. cmp a b \<le> 0 \<or> cmp b a \<le> 0) \<and>
     (\<forall>a b c. cmp a b \<le> 0 \<and> cmp b c \<le> 0 \<longrightarrow> cmp a c \<le> 0)"

definition ascendingBy :: "('a \<Rightarrow> 'a \<Rightarrow> int) \<Rightarrow> 'a list \<Rightarrow> bool" where
  "ascendingBy cmp xs = sorted_wrt (\<lambda>a b. cmp a b \<le> 0) xs"



definition detailOf :: "js_env \<Rightarrow> AggBucket \<Rightarrow> OutputRow \<Rightarrow> bool" where
  \<comment> \<open>The row has the numeric cells and the network that \<open>toOutputRow(b)\<close> gives, and the date
     of the bucket or nothing as its time.\<close>
  "detailOf env b r \<longleftrightarrow>
     numericCells r = numericCells (toOutputRow env b None None) \<and>
     col_network r = network b \<and> (col_time r = date b \<or> col_time r = [])"

definition rowMarked :: "js_env \<Rightarrow> AggBucket option \<Rightarrow> OutputRow \<Rightarrow> bool" where
  "rowMarked env m r = (case m of Some b \<Rightarrow> detailOf env b r | None \<Rightarrow> col_network r = [])"

definition markedBuckets :: "AggBucket option list \<Rightarrow> AggBucket list" where
  "markedBuckets marks = concat (map (\<lambda>m. case m of None \<Rightarrow> [] | Some b \<Rightarrow> [b]) marks)"

section \<open>Choosing the output path\<close>

function natToString :: "nat \<Rightarrow> js_string" where
  \<comment> \<open>\<open>`${n}`\<close> for a non-negative integer below \<open>10^21\<close>: its decimal digits.\<close>
  "natToString n = (if n < 10 then [48 + n] else natToString (n div 10) @ [48 + n mod 10])"
  by pat_completeness auto
termination
  by (relation "measure id") auto

definition STAT_SUFFIX :: js_string where
  \<comment> \<open>The suffix put before the extension, a hyphen and the two characters for "statistics".\<close>
  "STAT_SUFFIX = str ''-'' @ [0x7EDF, 0x8BA1]"

record outputBasePath =
  dir :: js_string
  ext :: js_string
  fileName :: js_string

definition getOutputBasePath :: "js_env \<Rightarrow> js_string \<Rightarrow> outputBasePath" where
  "getOutputBasePath env inputPath =
     \<lparr>dir = path_dirname env inputPath,
      ext = (if path_extname env inputPath = [] then str ''.csv'' else path_extname env inputPath),
      fileName = path_basename env inputPath (path_extname env inputPath)\<rparr>"

definition getOutputPath :: "js_env \<Rightarrow> js_string \<Rightarrow> js_string" where
  "getOutputPath env inputPath =
     (let base = getOutputBasePath env inputPath
      in path_join env (dir base) (fileName base @ STAT_SUFFIX @ ext base))"

definition numberedPath :: "js_env \<Rightarrow> outputBasePath \<Rightarrow> nat \<Rightarrow> js_string" where
  \<comment> \<open>\<open>join(dir, `${fileName}-<suffix>(${index})${ext}`)\<close>\<close>
  "numberedPath env base index =
     path_join env (dir base)
       (fileName base @ STAT_SUFFIX @ str ''('' @ natToString index @ str '')'' @ ext base)"

function firstFreeIndex ::
  "js_env \<Rightarrow> (js_string \<Rightarrow> bool) \<Rightarrow> outputBasePath \<Rightarrow> nat \<Rightarrow> js_string option" where
  \<comment> \<open>The loop \<open>while (index < 10000)\<close>; \<open>None\<close> when it ends without returning.\<close>
  "firstFreeIndex env existsSync base index =
     (if index < 10000 then
        (let candidate = numberedPath env base index
         in if \<not> existsSync candidate then Some candidate
            else firstFreeIndex env existsSync base (index + 1))
      else None)"
  by pat_completeness auto
termination
  by (relation "measure (\<lambda>(env, existsSync, base, index). 10000 - index)") auto

definition getNextAvailableOutputPath ::
  "js_env \<Rightarrow> (js_string \<Rightarrow> bool) \<Rightarrow> nat \<Rightarrow> js_string \<Rightarrow> js_string" where
  \<comment> \<open>\<open>existsSync\<close> is the state of the file system, \<open>now\<close> the value of \<open>Date.now()\<close>.\<close>
  "getNextAvailableOutputPath env existsSync now inputPath =
     (let base = getOutputBasePath env inputPath;
          firstPath = path_join env (dir base) (fileName base @ STAT_SUFFIX @ ext base)
      in if \<not> existsSync firstPath then firstPath
         else case firstFreeIndex env existsSync base 1 of
                Some candidate \<Rightarrow> candidate
              | None \<Rightarrow> numberedPath env base now)"

section \<open>A run\<close>

text \<open>
  What a run reads from the outside is a record: the state of the file system, the rows that
  \<open>detectCsv\<close> returns for the head of the file, the records that the parser emits for the
  whole file, the clock, and whether writing fails. \<open>None\<close> stands for a thrown or rejected
  error, which the \<open>catch\<close> of \<open>runCsvAggregation\<close> turns into the result \<open>UNKNOWN\<close>.
  Encoding, delimiter and the text of messages play no part in the claims and are left out.
\<close>

record io_world =
  existsSync :: "js_string \<Rightarrow> bool"
  detectedPreviewRows :: "js_string list list option"
  parsedRecords :: "js_string list list option"
  dateNow :: nat
  writeFails :: bool

record ValidationResult =
  previewRows :: "js_string list list"
  requiredColumnsFound :: bool
  missingColumns :: "js_string list"

datatype error_code = FILE_NOT_FOUND | MISSING_COLUMNS | PARSE_FAILED | WRITE_FAILED | UNKNOWN

record AggregationRunResult =
  success :: bool
  resultProcessedRows :: nat
  resultSkippedRows :: nat
  resultInvalidFieldStats :: stats
  outputPath :: "js_string option"
  resultRows :: "js_string list list option"
  errorCode :: "error_code option"
  resultMissingColumns :: "js_string list option"

definition OUTPUT_COLUMNS :: "js_string list" where
  "OUTPUT_COLUMNS =
     [COL_time, COL_network, COL_flow, COL_maxUser, COL_ulPrb, COL_dlPrb, COL_ulRate, COL_dlRate,
      COL_accessRate, COL_dropRate, COL_handoverRate, COL_interference]"

definition rowCells :: "OutputRow \<Rightarrow> js_string list" where
  \<comment> \<open>\<open>OUTPUT_COLUMNS.map((column) => row[column] ?? '')\<close>\<close>
  "rowCells r = col_time r # col_network r # numericCells r"

definition toPreviewRows :: "OutputRow list \<Rightarrow> js_string list list" where
  "toPreviewRows rows = OUTPUT_COLUMNS # map rowCells (take 200 rows)"

definition previewAndValidateCsv :: "io_world \<Rightarrow> js_string \<Rightarrow> ValidationResult option" where
  "previewAndValidateCsv world filePath =
     (if \<not> existsSync world filePath then
        Some \<lparr>previewRows = [], requiredColumnsFound = False, missingColumns = REQUIRED_COLUMNS\<rparr>
      else case detectedPreviewRows world of
             None \<Rightarrow> None
           | Some detected \<Rightarrow>
               (let header = (case detected of [] \<Rightarrow> [] | h # _ \<Rightarrow> h);
                    missing = getMissingColumns header
                in Some \<lparr>previewRows = take 100 detected, requiredColumnsFound = (missing = []),
                         missingColumns = missing\<rparr>))"

definition failure :: "error_code \<Rightarrow> js_string list option \<Rightarrow> AggregationRunResult" where
  "failure code missing =
     \<lparr>success = False, resultProcessedRows = 0, resultSkippedRows = 0,
      resultInvalidFieldStats = [], outputPath = None, resultRows = None,
      errorCode = Some code, resultMissingColumns = missing\<rparr>"

definition runCsvAggregation ::
  "js_env \<Rightarrow> io_world \<Rightarrow> js_string \<Rightarrow> AggregationOutputOptions option \<Rightarrow> AggregationRunResult" where
  "runCsvAggregation env world filePath options =
     (if \<not> existsSync world filePath then failure FILE_NOT_FOUND None
      else case previewAndValidateCsv world filePath of
             None \<Rightarrow> failure UNKNOWN None
           | Some preview \<Rightarrow>
               if \<not> requiredColumnsFound preview then
                 failure MISSING_COLUMNS (Some (missingColumns preview))
               else case parsedRecords world of
                      None \<Rightarrow> failure UNKNOWN None
                    | Some rows \<Rightarrow>
                        (let header = (case previewRows preview of [] \<Rightarrow> [] | h # _ \<Rightarrow> h);
                             st = parseDataRows env header rows;
                             outputRows = buildOutputRows env (buckets st) options;
                             path = getNextAvailableOutputPath env (existsSync world)
                                      (dateNow world) filePath
                         in if writeFails world then failure UNKNOWN None
                            else \<lparr>success = True, resultProcessedRows = processedRows st,
                                  resultSkippedRows = skippedRows st,
                                  resultInvalidFieldStats = invalidFieldStats st,
                                  outputPath = Some path,
                                  resultRows = Some (toPreviewRows outputRows),
                                  errorCode = None, resultMissingColumns = None\<rparr>))"

text \<open>
  An earlier revision of the service, kept in the repository beside the current one, has no
  search for a free name: it stops when the suffixed path exists. \<open>OUTPUT_EXISTS\<close> is its
  error code; \<open>Inl\<close> carries it.
\<close>

datatype legacy_error = OUTPUT_EXISTS

definition getOutputPathLegacy :: "js_env \<Rightarrow> js_string \<Rightarrow> js_string" where
  "getOutputPathLegacy env inputPath =
     (let d = path_dirname env inputPath;
          e = path_extname env inputPath;
          f = path_basename env inputPath e
      in path_join env d (f @ STAT_SUFFIX @ (if e = [] then str ''.csv'' else e)))"

definition legacyOutputPath ::
  "js_env \<Rightarrow> (js_string \<Rightarrow> bool) \<Rightarrow> js_string \<Rightarrow> legacy_error + js_string" where
  \<comment> \<open>\<open>const outputPath = getOutputPath(filePath); if (existsSync(outputPath)) return {\<dots>}\<close>\<close>
  "legacyOutputPath env fs inputPath =
     (let p = getOutputPathLegacy env inputPath in if fs p then Inl OUTPUT_EXISTS else Inr p)"

section \<open>An environment for concrete instances\<close>

text \<open>
  The instances below need concrete built-ins. \<open>demo_env\<close> agrees with JavaScript, dayjs and
  Node on the inputs the instances use: \<open>Number\<close> on plain decimal literals and on strings
  without digits, \<open>toFixed\<close> and \<open>toString\<close> on non-negative integers, strict dayjs parsing
  on well-formed \<open>YYYY-MM-DD\<close> dates, \<open>localeCompare\<close> on strings of digits, hyphens and
  upper-case letters, and the path functions on POSIX paths with one extension.
\<close>

definition isDigit :: "nat \<Rightarrow> bool" where
  "isDigit c \<longleftrightarrow> 48 \<le> c \<and> c \<le> 57"

definition digitsValue :: "js_string \<Rightarrow> nat" where
  "digitsValue s = foldl (\<lambda>a c. 10 * a + (c - 48)) 0 s"

definition demo_unsigned :: "js_string \<Rightarrow> rat option" where
  \<comment> \<open>digits, optionally followed by a point and digits; at least one digit\<close>
  "demo_unsigned s =
     (let ip = takeWhile isDigit s; rest = dropWhile isDigit s;
          fp = (case rest of [] \<Rightarrow> [] | c # cs \<Rightarrow> cs)
      in if (rest = [] \<or> hd rest = 46) \<and> list_all isDigit fp \<and> (ip \<noteq> [] \<or> fp \<noteq> [])
         then Some (of_nat (digitsValue (ip @ fp)) / 10 ^ length fp)
         else None)"

definition demo_Number :: "js_string \<Rightarrow> js_number" where
  "demo_Number s =
     (case s of
        [] \<Rightarrow> Fin 0
      | c # cs \<Rightarrow>
          if c = 45 then (case demo_unsigned cs of None \<Rightarrow> NaN | Some q \<Rightarrow> round_double (- q))
          else (case demo_unsigned s of None \<Rightarrow> NaN | Some q \<Rightarrow> round_double q))"

definition demo_toFixed :: "js_number \<Rightarrow> nat \<Rightarrow> js_string" where
  "demo_toFixed v n =
     (case v of Fin q \<Rightarrow> natToString (nat \<lfloor>q\<rfloor>) @ [46] @ replicate n 48 | _ \<Rightarrow> [])"

definition demo_toString :: "js_number \<Rightarrow> js_string" where
  "demo_toString v = (case v of Fin q \<Rightarrow> natToString (nat \<lfloor>q\<rfloor>) | _ \<Rightarrow> str ''NaN'')"

definition demo_dayjs_strict :: "js_string \<Rightarrow> js_string \<Rightarrow> dayjs_date option" where
  "demo_dayjs_strict raw pattern =
     (if pattern = str ''YYYY-MM-DD'' \<and> length raw = 10 \<and> raw ! 4 = 45 \<and> raw ! 7 = 45
         \<and> list_all isDigit (take 4 raw @ take 2 (drop 5 raw) @ drop 8 raw)
      then Some \<lparr>token_YYYY = take 4 raw, token_MM = take 2 (drop 5 raw), token_DD = drop 8 raw\<rparr>
      else None)"

fun demo_localeCompare :: "js_string \<Rightarrow> js_string \<Rightarrow> int" where
  "demo_localeCompare [] [] = 0"
| "demo_localeCompare [] (y # ys) = - 1"
| "demo_localeCompare (x # xs) [] = 1"
| "demo_localeCompare (x # xs) (y # ys) =
     (if x < y then - 1 else if y < x then 1 else demo_localeCompare xs ys)"

definition lastSegment :: "js_string \<Rightarrow> js_string" where
  "lastSegment p = rev (takeWhile (\<lambda>c. c \<noteq> 47) (rev p))"

definition demo_dirname :: "js_string \<Rightarrow> js_string" where
  "demo_dirname p = rev (drop 1 (dropWhile (\<lambda>c. c \<noteq> 47) (rev p)))"

definition demo_extname :: "js_string \<Rightarrow> js_string" where
  "demo_extname p =
     (let seg = lastSegment p
      in if 46 \<in> set (drop 1 seg) then 46 # rev (takeWhile (\<lambda>c. c \<noteq> 46) (rev seg)) else [])"

definition demo_basename :: "js_string \<Rightarrow> js_string \<Rightarrow> js_string" where
  "demo_basename p e =
     (let seg = lastSegment p
      in if e \<noteq> [] \<and> length e < length seg \<and> drop (length seg - length e) seg = e
         then take (length seg - length e) seg else seg)"

definition demo_join :: "js_string \<Rightarrow> js_string \<Rightarrow> js_string" where
  "demo_join d f = d @ [47] @ f"

definition demo_env :: js_env where
  "demo_env =
     \<lparr>js_Number = demo_Number, js_toFixed = demo_toFixed, js_toString = demo_toString,
      dayjs_strict = demo_dayjs_strict, dayjs_loose = (\<lambda>raw. None),
      localeCompare = demo_localeCompare, path_dirname = demo_dirname,
      path_extname = demo_extname, path_basename = demo_basename, path_join = demo_join\<rparr>"

text \<open>A file in the manner of the repository's tests: a header and four records.\<close>

definition demo_path :: js_string where
  "demo_path = str ''/tmp/input.csv''"

definition row_ok :: "js_string list" where
  "row_ok = map str [''2025-01-01'', ''ci1'', ''NSA'', ''A'', ''10'', ''100'', ''20'', ''30'',
                     ''40'', ''50'', ''99'', ''1'', ''95'', ''110'']"

definition row_bad_time :: "js_string list" where
  "row_bad_time = map str [''not-a-date'', ''ci1'', ''NSA'', ''A'', ''10'', ''100'']"

definition row_no_network :: "js_string list" where
  "row_no_network = map str [''2025-01-01'', ''ci2'', '' '', ''B'', ''11'', ''101'']"

definition row_short :: "js_string list" where
  "row_short = map str [''2025-01-01'', ''ci3'', ''NSA'', ''C'', ''abc'']"

definition demo_records :: "js_string list list" where
  "demo_records = [REQUIRED_COLUMNS, row_ok, row_bad_time, row_no_network, row_short]"

definition demo_world :: io_world where
  "demo_world =
     \<lparr>existsSync = (\<lambda>p. p = demo_path), detectedPreviewRows = Some demo_records,
      parsedRecords = Some demo_records, dateNow = 1700000000000, writeFails = False\<rparr>"

text \<open>
  Two states of the directory of the demo file: one where only the suffixed name is taken, and
  one where the suffixed name, the 9999 numbered names and the name with the time stamp of
  the run are all taken.
\<close>

definition taken_fs :: "js_string \<Rightarrow> bool" where
  "taken_fs p \<longleftrightarrow> p = demo_path \<or> p = getOutputPath demo_env demo_path"

definition crowded_fs :: "js_string \<Rightarrow> bool" where
  "crowded_fs p \<longleftrightarrow>
     p \<in> set (demo_path # getOutputPath demo_env demo_path
              # map (numberedPath demo_env (getOutputBasePath demo_env demo_path))
                  ([1..<10000] @ [1700000000000]))"

definition crowded_world :: io_world where
  "crowded_world = demo_world\<lparr>existsSync := crowded_fs\<rparr>"





section \<open>Properties of the aggregation pass\<close>

lemmas col_defs = COL_time_def COL_network_def COL_flow_def COL_maxUser_def COL_ulPrb_def
  COL_dlPrb_def COL_ulRate_def COL_dlRate_def COL_accessRate_def COL_dropRate_def
  COL_handoverRate_def COL_interference_def str_def

lemma map_fst_bump: "map fst (bump k s) = map fst s"
  by (induct s) (auto simp: bump_def)

lemma map_of_bump:
  "map_of (bump k s) k' = (if k' = k then map_option Suc (map_of s k) else map_of s k')"
  by (simp add: bump_def map_of_map_entry split: option.splits)

lemma invalidCount_bump:
  "k \<in> set (map fst s) \<Longrightarrow> invalidCount (bump k s) k' = invalidCount s k' + (if k' = k then 1 else 0)"
  by (auto simp: invalidCount_def map_of_bump map_of_eq_None_iff split: option.splits)

lemma snd_sumStep:
  "snd (sumStep env row i fk name bs) =
     (if parseNumeric env (cellAt row i) = None then bump name (snd bs) else snd bs)"
  by (simp add: sumStep_def split: option.splits)

lemma snd_avgStep:
  "snd (avgStep env row i fk ck name bs) =
     (if parseNumeric env (cellAt row i) = None then bump name (snd bs) else snd bs)"
  by (simp add: avgStep_def addAvgField_def Let_def split: option.splits)

lemma fst_sumStep:
  "fst (sumStep env row i fk name bs) =
     (case parseNumeric env (cellAt row i) of None \<Rightarrow> fst bs
      | Some v \<Rightarrow> setField fk (jsadd (getField fk (fst bs)) v) (fst bs))"
  by (simp add: sumStep_def split: option.splits)

lemma fst_avgStep:
  "fst (avgStep env row i fk ck name bs) =
     (case parseNumeric env (cellAt row i) of None \<Rightarrow> fst bs
      | Some v \<Rightarrow> setField ck (jsadd (getField ck (fst bs)) (Fin 1))
                   (setField fk (jsadd (getField fk (fst bs)) v) (fst bs)))"
  by (simp add: avgStep_def addAvgField_def Let_def split: option.splits)

lemma accumulate_fold: "accumulate env ci row = fold (columnStep env row) (numericColumns ci)"
  by (simp add: accumulate_def numericColumns_def columnStep_def fun_eq_iff)

lemma snd_columnStep:
  "snd (columnStep env row (name, i, sk, cko) bs) =
     (if parseNumeric env (cellAt row i) = None then bump name (snd bs) else snd bs)"
  by (cases cko) (simp_all add: columnStep_def snd_sumStep snd_avgStep)

lemma getField_setField:
  "getField k (setField k' v b) = (if k = k' then v else getField k b)"
  by (cases k; cases k'; simp)

lemma date_setField [simp]: "date (setField k v b) = date b"
  by (cases k; simp)

lemma network_setField [simp]: "network (setField k v b) = network b"
  by (cases k; simp)

lemma getField_columnStep:
  "Some sk \<noteq> cko \<Longrightarrow> getField k (fst (columnStep env row (name, i, sk, cko) bs)) =
     (case parseNumeric env (cellAt row i) of
        None \<Rightarrow> getField k (fst bs)
      | Some v \<Rightarrow> if k = sk then jsadd (getField k (fst bs)) v
                  else if Some k = cko then jsadd (getField k (fst bs)) (Fin 1)
                  else getField k (fst bs))"
  by (cases cko)
     (auto simp add: columnStep_def fst_sumStep fst_avgStep getField_setField split: option.splits)

lemma date_columnStep [simp]: "date (fst (columnStep env row col bs)) = date (fst bs)"
  by (cases col; cases "snd (snd (snd col))")
     (auto simp add: columnStep_def fst_sumStep fst_avgStep split: option.splits)

lemma network_columnStep [simp]: "network (fst (columnStep env row col bs)) = network (fst bs)"
  by (cases col; cases "snd (snd (snd col))")
     (auto simp add: columnStep_def fst_sumStep fst_avgStep split: option.splits)

lemma keys_fold_columnStep:
  "map fst (snd (fold (columnStep env row) cols bs)) = map fst (snd bs)"
  by (induction cols arbitrary: bs) (auto simp: snd_columnStep map_fst_bump)

lemma date_fold_columnStep [simp]:
  "date (fst (fold (columnStep env row) cols bs)) = date (fst bs)"
  by (induction cols arbitrary: bs) auto

lemma network_fold_columnStep [simp]:
  "network (fst (fold (columnStep env row) cols bs)) = network (fst bs)"
  by (induction cols arbitrary: bs) auto

lemma map_of_fold_columnStep_other:
  "k \<notin> fst ` set cols \<Longrightarrow>
   map_of (snd (fold (columnStep env row) cols bs)) k = map_of (snd bs) k"
  by (induction cols arbitrary: bs) (auto simp: snd_columnStep map_of_bump)

lemma map_of_fold_columnStep:
  "distinct (map fst cols) \<Longrightarrow> (name, i, sk, cko) \<in> set cols \<Longrightarrow>
   map_of (snd (fold (columnStep env row) cols bs)) name =
     (if parseNumeric env (cellAt row i) = None then map_option Suc (map_of (snd bs) name)
      else map_of (snd bs) name)"
proof (induction cols arbitrary: bs)
  case Nil
  then show ?case by simp
next
  case (Cons c cols)
  show ?case
  proof (cases "c = (name, i, sk, cko)")
    case True
    with Cons.prems have "name \<notin> fst ` set cols" by auto
    then show ?thesis
      using True by (simp add: map_of_fold_columnStep_other snd_columnStep map_of_bump)
  next
    case False
    with Cons.prems have mem: "(name, i, sk, cko) \<in> set cols" and d: "distinct (map fst cols)"
      and ne: "fst c \<noteq> name" by (auto simp: image_iff)
    obtain n' i' sk' cko' where c: "c = (n', i', sk', cko')" by (cases c) auto
    show ?thesis
      using Cons.IH[OF d mem] ne by (simp add: c snd_columnStep map_of_bump)
  qed
qed


lemma getField_columnStep_other:
  "k \<notin> set (keysOf col) \<Longrightarrow> getField k (fst (columnStep env row col bs)) = getField k (fst bs)"
  by (cases col; cases "snd (snd (snd col))")
     (auto simp add: keysOf_def columnStep_def fst_sumStep fst_avgStep getField_setField
           split: option.splits)

lemma getField_fold_columnStep_other:
  "k \<notin> set (concat (map keysOf cols)) \<Longrightarrow>
   getField k (fst (fold (columnStep env row) cols bs)) = getField k (fst bs)"
  by (induction cols arbitrary: bs) (auto simp: getField_columnStep_other)

lemma getField_fold_columnStep:
  assumes "distinct (concat (map keysOf cols))" and "(name, i, sk, cko) \<in> set cols"
  shows "getField sk (fst (fold (columnStep env row) cols bs)) =
           (case parseNumeric env (cellAt row i) of
              None \<Rightarrow> getField sk (fst bs)
            | Some v \<Rightarrow> jsadd (getField sk (fst bs)) v)"
    and "cko = Some ck \<Longrightarrow> getField ck (fst (fold (columnStep env row) cols bs)) =
           (case parseNumeric env (cellAt row i) of
              None \<Rightarrow> getField ck (fst bs)
            | Some v \<Rightarrow> jsadd (getField ck (fst bs)) (Fin 1))"
  using assms
proof (induction cols arbitrary: bs)
  case Nil
  {
    case 1 then show ?case by simp
  next
    case 2 then show ?case by simp
  }
next
  case (Cons c cols)
  {
    case 1
    show ?case
    proof (cases "c = (name, i, sk, cko)")
      case True
      with 1 have "sk \<notin> set (concat (map keysOf cols))" by (auto simp: keysOf_def)
      moreover from 1 True have "Some sk \<noteq> cko" by (auto simp: keysOf_def split: option.splits)
      ultimately show ?thesis
        using True by (simp add: getField_fold_columnStep_other getField_columnStep split: option.splits)
    next
      case False
      with 1 have mem: "(name, i, sk, cko) \<in> set cols" by auto
      from 1 have d: "distinct (concat (map keysOf cols))" by simp
      from mem have "sk \<in> set (concat (map keysOf cols))" by (force simp: keysOf_def)
      with 1 have "sk \<notin> set (keysOf c)" by auto
      then show ?thesis
        using Cons.IH(1)[OF d mem] by (simp add: getField_columnStep_other cong: option.case_cong)
    qed
  next
    case 2
    show ?case
    proof (cases "c = (name, i, sk, cko)")
      case True
      with 2 have "ck \<notin> set (concat (map keysOf cols))" by (auto simp: keysOf_def)
      moreover from 2 True have "Some sk \<noteq> cko" "ck \<noteq> sk" by (auto simp: keysOf_def split: option.splits)
      ultimately show ?thesis
        using True 2 by (simp add: getField_fold_columnStep_other getField_columnStep split: option.splits)
    next
      case False
      with 2 have mem: "(name, i, sk, cko) \<in> set cols" by auto
      from 2 have d: "distinct (concat (map keysOf cols))" by simp
      from mem 2 have "ck \<in> set (concat (map keysOf cols))" by (force simp: keysOf_def)
      with 2 have "ck \<notin> set (keysOf c)" by auto
      then show ?thesis
        using Cons.IH(2)[OF 2(1) d mem] by (simp add: getField_columnStep_other cong: option.case_cong)
    qed
  }
qed

lemma distinct_numericColumns_names: "distinct (map fst (numericColumns ci))"
  by (simp add: numericColumns_def col_defs)

lemma distinct_numericColumns_keys: "distinct (concat (map keysOf (numericColumns ci)))"
  by (simp add: numericColumns_def keysOf_def)

lemma numericColumns_names:
  "fst ` set (numericColumns ci) =
     {COL_flow, COL_maxUser, COL_ulPrb, COL_dlPrb, COL_ulRate, COL_dlRate, COL_accessRate,
      COL_dropRate, COL_handoverRate, COL_interference}"
  by (simp add: numericColumns_def)

lemma time_network_not_numeric:
  "COL_time \<notin> fst ` set (numericColumns ci)" "COL_network \<notin> fst ` set (numericColumns ci)"
  by (simp_all add: numericColumns_def col_defs)

lemma keys_initial:
  "map fst initialInvalidFieldStats =
     [COL_time, COL_network, COL_flow, COL_maxUser, COL_ulPrb, COL_dlPrb, COL_ulRate,
      COL_dlRate, COL_accessRate, COL_dropRate, COL_handoverRate, COL_interference]"
  by (simp add: initialInvalidFieldStats_def)


lemma parseDateToDay_nonempty: "parseDateToDay env v \<noteq> Some []"
  by (auto simp: parseDateToDay_def Let_def format_YYYY_MM_DD_def str_def split: option.splits)

lemma isHeader_processRow: "\<not> isHeader (processRow env ci st row)"
  by (auto simp: processRow_def Let_def skipRow_def split: option.splits prod.splits)

lemma parseDataRows_snoc:
  "parseDataRows env header (rows @ [row]) =
     processRow env (buildColIndex header) (parseDataRows env header rows) row"
  by (simp add: parseDataRows_def)

lemma isHeader_parseDataRows: "isHeader (parseDataRows env header rows) \<longleftrightarrow> rows = []"
  by (induction rows rule: rev_induct)
     (simp_all add: parseDataRows_snoc isHeader_processRow, simp add: parseDataRows_def initialState_def)

lemma keys_processRow:
  "map fst (invalidFieldStats (processRow env ci st row)) = map fst (invalidFieldStats st)"
  by (auto simp: processRow_def Let_def skipRow_def map_fst_bump accumulate_fold
           split: option.splits prod.splits dest!: arg_cong[where f = "\<lambda>p. map fst (snd p)"]
           simp: keys_fold_columnStep)

lemma keys_parseDataRows:
  "map fst (invalidFieldStats (parseDataRows env header rows)) = INVALID_KEYS"
  by (induction rows rule: rev_induct)
     (simp_all add: parseDataRows_snoc keys_processRow,
      simp add: parseDataRows_def initialState_def keys_initial INVALID_KEYS_def)


lemma rowDay_nonempty: "rowDay env ci row \<noteq> Some []"
  by (simp add: rowDay_def parseDateToDay_nonempty)

lemma processRow_time_invalid:
  "\<not> isHeader st \<Longrightarrow> rowDay env ci row = None \<Longrightarrow>
   processRow env ci st row = skipRow COL_time (st\<lparr>processedRows := processedRows st + 1\<rparr>)"
  by (simp add: processRow_def Let_def)

lemma processRow_network_invalid:
  "\<not> isHeader st \<Longrightarrow> rowDay env ci row = Some d \<Longrightarrow> rowNetwork ci row = [] \<Longrightarrow>
   processRow env ci st row = skipRow COL_network (st\<lparr>processedRows := processedRows st + 1\<rparr>)"
  using rowDay_nonempty[of env ci row] by (auto simp add: processRow_def Let_def)

lemma currentBucket_processedRows [simp]:
  "currentBucket (st\<lparr>processedRows := n\<rparr>) d net = currentBucket st d net"
  by (simp add: currentBucket_def)

lemma processRow_valid:
  assumes "\<not> isHeader st" and "rowDay env ci row = Some d" and "rowNetwork ci row \<noteq> []"
  shows "processRow env ci st row =
           st\<lparr>processedRows := processedRows st + 1,
              invalidFieldStats :=
                snd (accumulate env ci row (currentBucket st d (rowNetwork ci row), invalidFieldStats st)),
              buckets :=
                AList.update (bucketKey d (rowNetwork ci row))
                  (fst (accumulate env ci row (currentBucket st d (rowNetwork ci row), invalidFieldStats st)))
                  (buckets st)\<rparr>"
proof -
  from assms(2) have "d \<noteq> []" using rowDay_nonempty[of env ci row] by auto
  with assms show ?thesis
    by (simp add: processRow_def Let_def split: prod.splits)
qed

lemma skippedFor_skipRow:
  "name \<in> set (map fst (invalidFieldStats st)) \<Longrightarrow>
   skippedFor name st (skipRow name (st\<lparr>processedRows := n\<rparr>))"
  by (simp add: skippedFor_def skipRow_def invalidCount_bump)

lemma invalidCount_accumulate_other:
  "k \<notin> fst ` set (numericColumns ci) \<Longrightarrow>
   invalidCount (snd (accumulate env ci row bs)) k = invalidCount (snd bs) k"
  by (simp add: invalidCount_def accumulate_fold map_of_fold_columnStep_other)

lemma invalidCount_accumulate:
  assumes "(name, i, sk, cko) \<in> set (numericColumns ci)" and "name \<in> set (map fst (snd bs))"
  shows "invalidCount (snd (accumulate env ci row bs)) name =
           invalidCount (snd bs) name + (if parseNumeric env (cellAt row i) = None then 1 else 0)"
proof -
  from assms(2) obtain n where "map_of (snd bs) name = Some n"
    by (cases "map_of (snd bs) name") (auto simp: map_of_eq_None_iff)
  then show ?thesis
    using map_of_fold_columnStep[OF distinct_numericColumns_names assms(1), of env row bs]
    by (simp add: invalidCount_def accumulate_fold)
qed

lemma getField_accumulate:
  assumes "(name, i, sk, cko) \<in> set (numericColumns ci)"
  shows "getField sk (fst (accumulate env ci row bs)) =
           (case parseNumeric env (cellAt row i) of
              None \<Rightarrow> getField sk (fst bs)
            | Some v \<Rightarrow> jsadd (getField sk (fst bs)) v)"
    and "cko = Some ck \<Longrightarrow> getField ck (fst (accumulate env ci row bs)) =
           (case parseNumeric env (cellAt row i) of
              None \<Rightarrow> getField ck (fst bs)
            | Some v \<Rightarrow> jsadd (getField ck (fst bs)) (Fin 1))"
  using getField_fold_columnStep[OF distinct_numericColumns_keys assms]
  by (simp_all add: accumulate_fold)

lemma INVALID_KEYS_mem:
  "COL_time \<in> set INVALID_KEYS" "COL_network \<in> set INVALID_KEYS"
  "(name, i, sk, cko) \<in> set (numericColumns ci) \<Longrightarrow> name \<in> set INVALID_KEYS"
  by (auto simp: INVALID_KEYS_def numericColumns_def)

lemma date_network_columnStep:
  "date (fst (columnStep env row col bs)) = date (fst bs)"
  "network (fst (columnStep env row col bs)) = network (fst bs)"
  by (cases col; cases "snd (snd (snd col))";
      simp add: columnStep_def fst_sumStep fst_avgStep split: option.splits)+

lemma date_network_accumulate:
  "date (fst (accumulate env ci row bs)) = date (fst bs)"
  "network (fst (accumulate env ci row bs)) = network (fst bs)"
proof -
  have "date (fst (fold (columnStep env row) cols bs)) = date (fst bs) \<and>
        network (fst (fold (columnStep env row) cols bs)) = network (fst bs)" for cols
    by (induction cols arbitrary: bs) (simp_all add: date_network_columnStep)
  then show "date (fst (accumulate env ci row bs)) = date (fst bs)"
    and "network (fst (accumulate env ci row bs)) = network (fst bs)"
    by (simp_all add: accumulate_fold)
qed

lemma currentBucket_lookup:
  "currentBucket st d n =
     (case map_of (buckets st) (d @ str ''__'' @ n) of
        Some b \<Rightarrow> b | None \<Rightarrow> createEmptyBucket d n)"
  by (simp add: currentBucket_def bucketKey_def)

text \<open>
  Claim C1. In the pass of \<open>runCsvAggregation\<close> over the records of a file, every record after
  the header increments \<open>processedRows\<close>. It is dropped in two cases only: when
  \<open>parseDateToDay\<close> of its time cell is \<open>null\<close>, it adds one to the invalid count of the time
  column and to \<open>skippedRows\<close>, changes no other count and no bucket; otherwise, when its
  trimmed network cell is empty, the same holds with the network column. In every other case
  the row is not skipped. The map then holds, under the key made of the day, two underscores
  and the network, a bucket \<open>b'\<close> that comes from the bucket \<open>old\<close> the map held under that key
  before (a fresh bucket of this day and network when it held none); every other key is
  untouched; and each of the ten numeric columns on its own either adds its parsed value to
  its sum in \<open>old\<close> (and one to its count, for an averaged column) or leaves them as they are
  and adds one to the invalid count of that column.
\<close>

theorem data_row_accounting:
  "let ci = buildColIndex header;
       st = parseDataRows env header (h # pre);
       st' = parseDataRows env header (h # pre @ [row])
   in processedRows st' = processedRows st + 1 \<and>
      (rowDay env ci row = None \<longrightarrow> skippedFor COL_time st st') \<and>
      (rowDay env ci row \<noteq> None \<and> rowNetwork ci row = [] \<longrightarrow> skippedFor COL_network st st') \<and>
      (\<forall>d. rowDay env ci row = Some d \<and> rowNetwork ci row \<noteq> [] \<longrightarrow>
         skippedRows st' = skippedRows st \<and>
         invalidCount (invalidFieldStats st') COL_time = invalidCount (invalidFieldStats st) COL_time \<and>
         invalidCount (invalidFieldStats st') COL_network =
           invalidCount (invalidFieldStats st) COL_network \<and>
         (let key = d @ str ''__'' @ rowNetwork ci row;
              old = (case map_of (buckets st) key of
                       Some b \<Rightarrow> b
                     | None \<Rightarrow> createEmptyBucket d (rowNetwork ci row))
          in \<exists>b'. buckets st' = AList.update key b' (buckets st) \<and>
               map_of (buckets st') key = Some b' \<and>
               (\<forall>k. k \<noteq> key \<longrightarrow> map_of (buckets st') k = map_of (buckets st) k) \<and>
               date b' = date old \<and> network b' = network old \<and>
               (\<forall>(name, i, sumKey, countKey) \<in> set (numericColumns ci).
                  case parseNumeric env (cellAt row i) of
                    None \<Rightarrow>
                      invalidCount (invalidFieldStats st') name =
                        invalidCount (invalidFieldStats st) name + 1 \<and>
                      getField sumKey b' = getField sumKey old \<and>
                      (\<forall>ck. countKey = Some ck \<longrightarrow> getField ck b' = getField ck old)
                  | Some v \<Rightarrow>
                      invalidCount (invalidFieldStats st') name =
                        invalidCount (invalidFieldStats st) name \<and>
                      getField sumKey b' = jsadd (getField sumKey old) v \<and>
                      (\<forall>ck. countKey = Some ck \<longrightarrow>
                         getField ck b' = jsadd (getField ck old) (Fin 1)))))"
proof -
  define ci where "ci = buildColIndex header"
  define st where "st = parseDataRows env header (h # pre)"
  define st' where "st' = parseDataRows env header (h # pre @ [row])"
  have step: "st' = processRow env ci st row"
    using parseDataRows_snoc[of env header "h # pre" row] by (simp add: st_def st'_def ci_def)
  have nh: "\<not> isHeader st" by (simp add: st_def isHeader_parseDataRows)
  have keys: "map fst (invalidFieldStats st) = INVALID_KEYS"
    by (simp add: st_def keys_parseDataRows)
  have p: "processedRows st' = processedRows st + 1"
    using nh by (auto simp: step processRow_def Let_def skipRow_def split: option.splits prod.splits)
  have t: "skippedFor COL_time st st'" if "rowDay env ci row = None"
    using that nh keys by (simp add: step processRow_time_invalid skippedFor_skipRow INVALID_KEYS_mem)
  have n: "skippedFor COL_network st st'" if "rowDay env ci row \<noteq> None" "rowNetwork ci row = []"
    using that nh keys
    by (auto simp add: step processRow_network_invalid skippedFor_skipRow INVALID_KEYS_mem)
  have v: "skippedRows st' = skippedRows st \<and>
         invalidCount (invalidFieldStats st') COL_time = invalidCount (invalidFieldStats st) COL_time \<and>
         invalidCount (invalidFieldStats st') COL_network =
           invalidCount (invalidFieldStats st) COL_network \<and>
         (let key = d @ str ''__'' @ rowNetwork ci row;
              old = (case map_of (buckets st) key of
                       Some b \<Rightarrow> b
                     | None \<Rightarrow> createEmptyBucket d (rowNetwork ci row))
          in \<exists>b'. buckets st' = AList.update key b' (buckets st) \<and>
               map_of (buckets st') key = Some b' \<and>
               (\<forall>k. k \<noteq> key \<longrightarrow> map_of (buckets st') k = map_of (buckets st) k) \<and>
               date b' = date old \<and> network b' = network old \<and>
               (\<forall>(name, i, sumKey, countKey) \<in> set (numericColumns ci).
                  case parseNumeric env (cellAt row i) of
                    None \<Rightarrow>
                      invalidCount (invalidFieldStats st') name =
                        invalidCount (invalidFieldStats st) name + 1 \<and>
                      getField sumKey b' = getField sumKey old \<and>
                      (\<forall>ck. countKey = Some ck \<longrightarrow> getField ck b' = getField ck old)
                  | Some v \<Rightarrow>
                      invalidCount (invalidFieldStats st') name =
                        invalidCount (invalidFieldStats st) name \<and>
                      getField sumKey b' = jsadd (getField sumKey old) v \<and>
                      (\<forall>ck. countKey = Some ck \<longrightarrow>
                         getField ck b' = jsadd (getField ck old) (Fin 1))))"
    if d: "rowDay env ci row = Some d" and net: "rowNetwork ci row \<noteq> []" for d
  proof -
    define key where "key = d @ str ''__'' @ rowNetwork ci row"
    define old where "old = (case map_of (buckets st) key of
                       Some b \<Rightarrow> b
                     | None \<Rightarrow> createEmptyBucket d (rowNetwork ci row))"
    have cur: "currentBucket st d (rowNetwork ci row) = old"
      by (simp add: currentBucket_lookup old_def key_def)
    have bk: "bucketKey d (rowNetwork ci row) = key"
      by (simp add: bucketKey_def key_def)
    let ?acc = "accumulate env ci row (old, invalidFieldStats st)"
    have eq: "st' = st\<lparr>processedRows := processedRows st + 1, invalidFieldStats := snd ?acc,
                buckets := AList.update key (fst ?acc) (buckets st)\<rparr>"
      unfolding step using processRow_valid[OF nh d net] by (simp add: cur bk)
    have cols: "case parseNumeric env (cellAt row i) of
                 None \<Rightarrow>
                   invalidCount (snd ?acc) name = invalidCount (invalidFieldStats st) name + 1 \<and>
                   getField sumKey (fst ?acc) = getField sumKey old \<and>
                   (\<forall>ck. countKey = Some ck \<longrightarrow> getField ck (fst ?acc) = getField ck old)
               | Some v \<Rightarrow>
                   invalidCount (snd ?acc) name = invalidCount (invalidFieldStats st) name \<and>
                   getField sumKey (fst ?acc) = jsadd (getField sumKey old) v \<and>
                   (\<forall>ck. countKey = Some ck \<longrightarrow>
                      getField ck (fst ?acc) = jsadd (getField ck old) (Fin 1))"
      if mem: "(name, i, sumKey, countKey) \<in> set (numericColumns ci)" for name i sumKey countKey
    proof -
      have "name \<in> set (map fst (snd (old, invalidFieldStats st)))"
        using keys INVALID_KEYS_mem(3)[OF mem] by simp
      from invalidCount_accumulate[OF mem this, of env row]
           getField_accumulate[OF mem, where env = env and row = row
             and bs = "(old, invalidFieldStats st)"]
      show ?thesis by (auto split: option.splits)
    qed
    have sel: "invalidFieldStats st' = snd ?acc" "skippedRows st' = skippedRows st"
      "buckets st' = AList.update key (fst ?acc) (buckets st)"
      by (simp_all add: eq)
    have other: "invalidCount (snd ?acc) COL_time = invalidCount (invalidFieldStats st) COL_time"
      "invalidCount (snd ?acc) COL_network = invalidCount (invalidFieldStats st) COL_network"
      by (simp_all add: invalidCount_accumulate_other time_network_not_numeric)
    have look: "map_of (AList.update key (fst ?acc) (buckets st)) key = Some (fst ?acc)"
      "\<And>k. k \<noteq> key \<Longrightarrow> map_of (AList.update key (fst ?acc) (buckets st)) k = map_of (buckets st) k"
      by (simp_all add: update_conv')
    have dn: "date (fst ?acc) = date old" "network (fst ?acc) = network old"
      by (simp_all add: date_network_accumulate)
    have "\<exists>b'. buckets st' = AList.update key b' (buckets st) \<and>
               map_of (buckets st') key = Some b' \<and>
               (\<forall>k. k \<noteq> key \<longrightarrow> map_of (buckets st') k = map_of (buckets st) k) \<and>
               date b' = date old \<and> network b' = network old \<and>
               (\<forall>(name, i, sumKey, countKey) \<in> set (numericColumns ci).
                  case parseNumeric env (cellAt row i) of
                    None \<Rightarrow>
                      invalidCount (invalidFieldStats st') name =
                        invalidCount (invalidFieldStats st) name + 1 \<and>
                      getField sumKey b' = getField sumKey old \<and>
                      (\<forall>ck. countKey = Some ck \<longrightarrow> getField ck b' = getField ck old)
                  | Some v \<Rightarrow>
                      invalidCount (invalidFieldStats st') name =
                        invalidCount (invalidFieldStats st) name \<and>
                      getField sumKey b' = jsadd (getField sumKey old) v \<and>
                      (\<forall>ck. countKey = Some ck \<longrightarrow>
                         getField ck b' = jsadd (getField ck old) (Fin 1)))"
      unfolding sel using look dn cols by (intro exI[of _ "fst ?acc"] conjI) auto
    then show ?thesis
      unfolding Let_def key_def[symmetric] old_def[symmetric] using other
      by (simp add: sel(1,2))
  qed
  show ?thesis
    unfolding Let_def[of "buildColIndex header"] Let_def[of "parseDataRows env header (h # pre)"]
      Let_def[of "parseDataRows env header (h # pre @ [row])"]
    unfolding ci_def[symmetric] st_def[symmetric] st'_def[symmetric]
  proof (intro conjI)
    show "processedRows st' = processedRows st + 1" by (rule p)
    show "rowDay env ci row = None \<longrightarrow> skippedFor COL_time st st'"
      by (intro impI) (rule t)
    show "rowDay env ci row \<noteq> None \<and> rowNetwork ci row = [] \<longrightarrow> skippedFor COL_network st st'"
      by (intro impI, elim conjE) (rule n)
  next
    show "\<forall>d. rowDay env ci row = Some d \<and> rowNetwork ci row \<noteq> [] \<longrightarrow>
         skippedRows st' = skippedRows st \<and>
         invalidCount (invalidFieldStats st') COL_time = invalidCount (invalidFieldStats st) COL_time \<and>
         invalidCount (invalidFieldStats st') COL_network =
           invalidCount (invalidFieldStats st) COL_network \<and>
         (let key = d @ str ''__'' @ rowNetwork ci row;
              old = (case map_of (buckets st) key of
                       Some b \<Rightarrow> b
                     | None \<Rightarrow> createEmptyBucket d (rowNetwork ci row))
          in \<exists>b'. buckets st' = AList.update key b' (buckets st) \<and>
               map_of (buckets st') key = Some b' \<and>
               (\<forall>k. k \<noteq> key \<longrightarrow> map_of (buckets st') k = map_of (buckets st) k) \<and>
               date b' = date old \<and> network b' = network old \<and>
               (\<forall>(name, i, sumKey, countKey) \<in> set (numericColumns ci).
                  case parseNumeric env (cellAt row i) of
                    None \<Rightarrow>
                      invalidCount (invalidFieldStats st') name =
                        invalidCount (invalidFieldStats st) name + 1 \<and>
                      getField sumKey b' = getField sumKey old \<and>
                      (\<forall>ck. countKey = Some ck \<longrightarrow> getField ck b' = getField ck old)
                  | Some v \<Rightarrow>
                      invalidCount (invalidFieldStats st') name =
                        invalidCount (invalidFieldStats st) name \<and>
                      getField sumKey b' = jsadd (getField sumKey old) v \<and>
                      (\<forall>ck. countKey = Some ck \<longrightarrow>
                         getField ck b' = jsadd (getField ck old) (Fin 1))))"
      by (intro allI impI, elim conjE) (rule v)
  qed
qed



lemma normalizeHeader_cols:
  "normalizeHeader COL_time = COL_time" "normalizeHeader COL_CI = COL_CI"
  "normalizeHeader COL_network = COL_network" "normalizeHeader COL_cellName = COL_cellName"
  "normalizeHeader COL_flow = COL_flow" "normalizeHeader COL_maxUser = COL_maxUser"
  "normalizeHeader COL_ulPrb = COL_ulPrb" "normalizeHeader COL_dlPrb = COL_dlPrb"
  "normalizeHeader COL_ulRate = COL_ulRate" "normalizeHeader COL_dlRate = COL_dlRate"
  "normalizeHeader COL_accessRate = COL_accessRate" "normalizeHeader COL_dropRate = COL_dropRate"
  "normalizeHeader COL_handoverRate = COL_handoverRate"
  "normalizeHeader COL_interference = COL_interference"
  by (simp_all add: normalizeHeader_def col_defs COL_CI_def COL_cellName_def stripBOM_def
        replaceAllChar_def trim_def trimStart_def trimEnd_def isWhiteSpace_def)

lemma buildColIndex_required:
  "buildColIndex REQUIRED_COLUMNS =
     \<lparr>ci_time = 0, ci_network = 2, ci_flow = 4, ci_maxUser = 5, ci_ulPrb = 6, ci_dlPrb = 7,
      ci_ulRate = 8, ci_dlRate = 9, ci_accessRate = 10, ci_dropRate = 11, ci_handoverRate = 12,
      ci_interference = 13\<rparr>"
  apply (simp add: buildColIndex_def REQUIRED_COLUMNS_def normalizeHeader_cols indexMap_def
           indexOr_def upt_rec)
  apply (simp add: col_defs COL_CI_def COL_cellName_def)
  done

lemma getMissingColumns_required: "getMissingColumns REQUIRED_COLUMNS = []"
  by (simp add: getMissingColumns_def REQUIRED_COLUMNS_def normalizeHeader_cols)

lemmas demo_eval = demo_env_def parseDateToDay_def DATE_PATTERNS_def demo_dayjs_strict_def
  format_YYYY_MM_DD_def str_def trim_def trimStart_def trimEnd_def isWhiteSpace_def isDigit_def
  cellAt_def orEmpty_def rowDay_def rowNetwork_def

lemma demo_rowDay:
  "rowDay demo_env (buildColIndex REQUIRED_COLUMNS) row_bad_time = None"
  "rowDay demo_env (buildColIndex REQUIRED_COLUMNS) row_no_network = Some (str ''2025-01-01'')"
  "rowDay demo_env (buildColIndex REQUIRED_COLUMNS) row_short = Some (str ''2025-01-01'')"
  "rowDay demo_env (buildColIndex REQUIRED_COLUMNS) row_ok = Some (str ''2025-01-01'')"
  by (simp_all add: buildColIndex_required row_bad_time_def row_no_network_def row_short_def
        row_ok_def demo_eval)

lemma demo_rowNetwork:
  "rowNetwork (buildColIndex REQUIRED_COLUMNS) row_no_network = []"
  "rowNetwork (buildColIndex REQUIRED_COLUMNS) row_short = str ''NSA''"
  "rowNetwork (buildColIndex REQUIRED_COLUMNS) row_ok = str ''NSA''"
  by (simp_all add: buildColIndex_required row_no_network_def row_short_def row_ok_def demo_eval)

lemma cleanNumeric_filter:
  "cleanNumeric v = filter (\<lambda>c. c \<noteq> 0x2C \<and> c \<noteq> 0x25) (trim v)"
proof -
  have r: "replaceAllChar c [] s = filter (\<lambda>x. x \<noteq> c) s" for c :: nat and s
    by (induction s) (auto simp: replaceAllChar_def)
  show ?thesis by (simp add: cleanNumeric_def r conj_commute)
qed

lemma trim_Nil [simp]: "trim [] = []"
  by (simp add: trim_def trimStart_def trimEnd_def)

lemma parseNumeric_absent: "parseNumeric env None = None" "parseNumeric env (Some []) = None"
  by (simp_all add: parseNumeric_def cleanNumeric_filter)

lemma cellAt_padded:
  "orEmpty (cellAt (row @ replicate k []) i) = orEmpty (cellAt row i)"
  "parseNumeric env (cellAt (row @ replicate k []) i) = parseNumeric env (cellAt row i)"
  by (auto simp: cellAt_def orEmpty_def nth_append parseNumeric_absent)

lemma columnStep_padded:
  "columnStep env (row @ replicate k []) col bs = columnStep env row col bs"
  by (cases col; cases "snd (snd (snd col))")
     (simp_all add: columnStep_def sumStep_def avgStep_def cellAt_padded)

lemma accumulate_padded:
  "accumulate env ci (row @ replicate k []) = accumulate env ci row"
proof -
  have "columnStep env (row @ replicate k []) = columnStep env row"
    by (simp add: fun_eq_iff columnStep_padded)
  then show ?thesis by (simp add: accumulate_fold)
qed

lemma processRow_padded:
  "processRow env ci st (row @ replicate k []) = processRow env ci st row"
  by (simp add: processRow_def rowDay_def rowNetwork_def cellAt_padded accumulate_padded Let_def
        cong: option.case_cong if_cong)

lemma processedRows_processRow:
  "processedRows (processRow env ci st row) = (if isHeader st then processedRows st else processedRows st + 1)"
  by (auto simp: processRow_def Let_def skipRow_def split: option.splits prod.splits)

lemma processedRows_parseDataRows:
  "processedRows (parseDataRows env header rows) = length rows - 1"
proof (induction rows rule: rev_induct)
  case Nil
  then show ?case by (simp add: parseDataRows_def initialState_def)
next
  case (snoc r rows)
  show ?case
    unfolding parseDataRows_snoc using snoc
    by (cases "rows = []") (auto simp: processedRows_processRow isHeader_parseDataRows)
qed

lemma run_success:
  assumes "existsSync world filePath" and "detectedPreviewRows world = Some (hdr # rest)"
    and "getMissingColumns hdr = []" and "parsedRecords world = Some rows" and "\<not> writeFails world"
  shows "runCsvAggregation env world filePath options =
           \<lparr>success = True,
            resultProcessedRows = processedRows (parseDataRows env hdr rows),
            resultSkippedRows = skippedRows (parseDataRows env hdr rows),
            resultInvalidFieldStats = invalidFieldStats (parseDataRows env hdr rows),
            outputPath = Some (getNextAvailableOutputPath env (existsSync world) (dateNow world) filePath),
            resultRows = Some (toPreviewRows (buildOutputRows env (buckets (parseDataRows env hdr rows)) options)),
            errorCode = None, resultMissingColumns = None\<rparr>"
  using assms by (simp add: runCsvAggregation_def previewAndValidateCsv_def Let_def)

lemma run_failure_stats:
  "\<not> success (runCsvAggregation env world filePath options) \<Longrightarrow>
   resultInvalidFieldStats (runCsvAggregation env world filePath options) = []"
  by (auto simp: runCsvAggregation_def failure_def Let_def split: option.splits if_splits)

lemma run_success_stats:
  assumes "success (runCsvAggregation env world filePath options)"
  shows "map fst (resultInvalidFieldStats (runCsvAggregation env world filePath options)) = INVALID_KEYS"
  using assms
  by (auto simp: runCsvAggregation_def failure_def Let_def keys_parseDataRows
           split: option.splits if_splits)

lemma demo_run:
  "runCsvAggregation demo_env demo_world demo_path options =
           \<lparr>success = True,
            resultProcessedRows = processedRows (parseDataRows demo_env REQUIRED_COLUMNS demo_records),
            resultSkippedRows = skippedRows (parseDataRows demo_env REQUIRED_COLUMNS demo_records),
            resultInvalidFieldStats = invalidFieldStats (parseDataRows demo_env REQUIRED_COLUMNS demo_records),
            outputPath = Some (getNextAvailableOutputPath demo_env (existsSync demo_world) (dateNow demo_world) demo_path),
            resultRows = Some (toPreviewRows (buildOutputRows demo_env (buckets (parseDataRows demo_env REQUIRED_COLUMNS demo_records)) options)),
            errorCode = None, resultMissingColumns = None\<rparr>"
  by (rule run_success[where rest = "tl demo_records"])
     (simp_all add: demo_world_def demo_records_def getMissingColumns_required)


lemma counters_processRow:
  fixes env ci st row
  defines "st' \<equiv> processRow env ci st row"
  assumes keys: "map fst (invalidFieldStats st) = INVALID_KEYS"
  shows "(skippedRows st' = skippedRows st \<and>
          invalidCount (invalidFieldStats st') COL_time = invalidCount (invalidFieldStats st) COL_time \<and>
          invalidCount (invalidFieldStats st') COL_network = invalidCount (invalidFieldStats st) COL_network)
       \<or> (skippedRows st' = skippedRows st + 1 \<and>
          invalidCount (invalidFieldStats st') COL_time = invalidCount (invalidFieldStats st) COL_time + 1 \<and>
          invalidCount (invalidFieldStats st') COL_network = invalidCount (invalidFieldStats st) COL_network)
       \<or> (skippedRows st' = skippedRows st + 1 \<and>
          invalidCount (invalidFieldStats st') COL_time = invalidCount (invalidFieldStats st) COL_time \<and>
          invalidCount (invalidFieldStats st') COL_network = invalidCount (invalidFieldStats st) COL_network + 1)"
proof (cases "isHeader st")
  case True
  then show ?thesis by (simp add: st'_def processRow_def)
next
  case nh: False
  have ne: "COL_time \<noteq> COL_network" by (simp add: col_defs)
  show ?thesis
  proof (cases "rowDay env ci row")
    case None
    from skippedFor_skipRow[of COL_time st "processedRows st + 1"] keys
    have "skippedFor COL_time st st'"
      by (simp add: st'_def processRow_time_invalid[OF nh None] INVALID_KEYS_mem)
    then show ?thesis using ne by (simp add: skippedFor_def)
  next
    case (Some d)
    show ?thesis
    proof (cases "rowNetwork ci row = []")
      case True
      from skippedFor_skipRow[of COL_network st "processedRows st + 1"] keys
      have "skippedFor COL_network st st'"
        by (simp add: st'_def processRow_network_invalid[OF nh Some True] INVALID_KEYS_mem)
      then show ?thesis using ne by (simp add: skippedFor_def)
    next
      case False
      show ?thesis
        by (simp add: st'_def processRow_valid[OF nh Some False] invalidCount_accumulate_other
              time_network_not_numeric)
    qed
  qed
qed

lemma skipped_parseDataRows:
  "skippedRows (parseDataRows env header rows) =
     invalidCount (invalidFieldStats (parseDataRows env header rows)) COL_time +
     invalidCount (invalidFieldStats (parseDataRows env header rows)) COL_network"
proof (induction rows rule: rev_induct)
  case Nil
  then show ?case
    by (simp add: parseDataRows_def initialState_def initialInvalidFieldStats_def invalidCount_def
          col_defs)
next
  case (snoc r rows)
  from counters_processRow[where st = "parseDataRows env header rows" and env = env
         and ci = "buildColIndex header" and row = r, OF keys_parseDataRows]
  show ?case unfolding parseDataRows_snoc using snoc by auto
qed

text \<open>
  Claim C8. After every number of records, \<open>skippedRows\<close> is the sum of the invalid counts of
  the time and network columns; each record either leaves the three counters alone or adds one
  to \<open>skippedRows\<close> and to exactly one of the two counts. The invariant is that of the loop,
  read between two records.
\<close>
theorem skipped_rows_invariant:
  "let st = parseDataRows env header (take k rows);
       st' = parseDataRows env header (take (Suc k) rows);
       s = skippedRows st;
       t = invalidCount (invalidFieldStats st) COL_time;
       n = invalidCount (invalidFieldStats st) COL_network;
       s' = skippedRows st';
       t' = invalidCount (invalidFieldStats st') COL_time;
       n' = invalidCount (invalidFieldStats st') COL_network
   in s = t + n \<and>
      ((s' = s \<and> t' = t \<and> n' = n) \<or> (s' = s + 1 \<and> t' = t + 1 \<and> n' = n)
       \<or> (s' = s + 1 \<and> t' = t \<and> n' = n + 1))"
proof (cases "k < length rows")
  case True
  then have "take (Suc k) rows = take k rows @ [rows ! k]"
    by (simp add: take_Suc_conv_app_nth)
  then show ?thesis
    using counters_processRow[where st = "parseDataRows env header (take k rows)" and env = env
            and ci = "buildColIndex header" and row = "rows ! k", OF keys_parseDataRows]
    by (simp add: Let_def parseDataRows_snoc skipped_parseDataRows)
next
  case False
  then show ?thesis by (simp add: Let_def skipped_parseDataRows)
qed

lemma INVALID_KEYS_numeric: "INVALID_KEYS = [COL_time, COL_network] @ map fst (numericColumns ci)"
  by (simp add: INVALID_KEYS_def numericColumns_def)

lemma distinct_INVALID_KEYS: "distinct INVALID_KEYS"
  by (simp add: INVALID_KEYS_def col_defs)

lemma initial_zero: "initialInvalidFieldStats = map (\<lambda>k. (k, 0)) INVALID_KEYS"
  by (simp add: initialInvalidFieldStats_def INVALID_KEYS_def)

lemma stats_header_only:
  "invalidFieldStats (parseDataRows env header []) = map (\<lambda>k. (k, 0)) INVALID_KEYS"
  "invalidFieldStats (parseDataRows env header [h]) = map (\<lambda>k. (k, 0)) INVALID_KEYS"
  by (simp_all add: parseDataRows_def initialState_def processRow_def initial_zero)

text \<open>
  Claim C4, as amended. \<open>invalidFieldStats\<close> has exactly twelve keys, the time column, the
  network column and the ten numeric columns; they are there from the start with the value
  zero, stay in place whatever the records are, and are the keys of the mapping a successful
  run returns.
\<close>
theorem invalid_stats_twelve_keys:
  "length INVALID_KEYS = 12 \<and> distinct INVALID_KEYS \<and>
   INVALID_KEYS = [COL_time, COL_network] @ map fst (numericColumns ci) \<and>
   length (numericColumns ci) = 10 \<and>
   map fst (invalidFieldStats (parseDataRows env header rows)) = INVALID_KEYS \<and>
   invalidFieldStats (parseDataRows env header []) = map (\<lambda>k. (k, 0)) INVALID_KEYS \<and>
   invalidFieldStats (parseDataRows env header [h]) = map (\<lambda>k. (k, 0)) INVALID_KEYS \<and>
   (success (runCsvAggregation env world filePath options) \<longrightarrow>
      map fst (resultInvalidFieldStats (runCsvAggregation env world filePath options)) = INVALID_KEYS)"
  using INVALID_KEYS_numeric[of ci] distinct_INVALID_KEYS keys_parseDataRows[of env header rows]
    stats_header_only[of env header] run_success_stats[of env world filePath options]
  by (simp add: numericColumns_def) (simp add: INVALID_KEYS_def)

theorem invalid_stats_twelve_keys_witness:
  "success (runCsvAggregation demo_env demo_world demo_path None) \<and>
   map fst (resultInvalidFieldStats (runCsvAggregation demo_env demo_world demo_path None)) =
     INVALID_KEYS"
  using invalid_stats_twelve_keys[of undefined demo_env undefined undefined undefined demo_world demo_path None]
  by (simp add: demo_run)

text \<open>
  Claim C4 as stated asks for thirteen keys, eleven of them numeric. The run over the demo
  file succeeds and returns twelve.
\<close>

theorem invalid_stats_thirteen_keys_counterexample:
  "success (runCsvAggregation demo_env demo_world demo_path None) \<and>
   length (resultInvalidFieldStats (runCsvAggregation demo_env demo_world demo_path None)) \<noteq> 13"
proof -
  have "length (map fst (invalidFieldStats (parseDataRows demo_env REQUIRED_COLUMNS demo_records))) = 12"
    unfolding keys_parseDataRows by (simp add: INVALID_KEYS_def)
  then show ?thesis by (simp add: demo_run)
qed


lemma demo_flow_invalid:
  "parseNumeric demo_env (cellAt row_short (ci_flow (buildColIndex REQUIRED_COLUMNS))) = None"
  by (simp add: buildColIndex_required row_short_def cellAt_def parseNumeric_def cleanNumeric_filter
        trim_def trimStart_def trimEnd_def isWhiteSpace_def str_def demo_env_def demo_Number_def
        demo_unsigned_def isDigit_def)


text \<open>
  Claim C9. A record shorter than the column indices of the header does not end the run. A
  missing cell is \<open>undefined\<close>, for which \<open>parseNumeric\<close> returns \<open>null\<close>; the record is
  handled as the same record padded with empty cells; in a record that is not skipped the
  missing cell adds one to the invalid count of its column; and a run whose file exists, whose
  header has the required columns and whose reading and writing do not fail succeeds whatever
  the lengths of the records are.
\<close>
theorem short_rows_are_counted_not_fatal:
  "parseNumeric env None = None \<and>
   (\<forall>(name, i, sumKey, countKey) \<in> set (numericColumns ci).
      int (length row) \<le> i \<longrightarrow> parseNumeric env (cellAt row i) = None) \<and>
   processRow env ci st (row @ replicate k []) = processRow env ci st row \<and>
   (let st0 = parseDataRows env header (h # pre);
        st1 = parseDataRows env header (h # pre @ [row]);
        hci = buildColIndex header
    in \<forall>(name, i, sumKey, countKey) \<in> set (numericColumns hci).
         int (length row) \<le> i \<and> rowDay env hci row \<noteq> None \<and> rowNetwork hci row \<noteq> [] \<longrightarrow>
           invalidCount (invalidFieldStats st1) name = invalidCount (invalidFieldStats st0) name + 1 \<and>
           skippedRows st1 = skippedRows st0) \<and>
   (existsSync world filePath \<and> detectedPreviewRows world = Some (hdr # rest) \<and>
    getMissingColumns hdr = [] \<and> parsedRecords world = Some rows \<and> \<not> writeFails world \<longrightarrow>
      success (runCsvAggregation env world filePath options) \<and>
      errorCode (runCsvAggregation env world filePath options) = None \<and>
      resultProcessedRows (runCsvAggregation env world filePath options) = length rows - 1)"
proof -
  have absent: "parseNumeric env (cellAt r i) = None" if "int (length r) \<le> i" for r i
  proof -
    from that have "\<not> nat i < length r" by linarith
    then show ?thesis by (simp add: cellAt_def parseNumeric_absent)
  qed
  have counted: "invalidCount (invalidFieldStats (parseDataRows env header (h # pre @ [row]))) name =
           invalidCount (invalidFieldStats (parseDataRows env header (h # pre))) name + 1 \<and>
         skippedRows (parseDataRows env header (h # pre @ [row])) =
           skippedRows (parseDataRows env header (h # pre))"
    if mem: "(name, i, sumKey, countKey) \<in> set (numericColumns (buildColIndex header))"
      and short: "int (length row) \<le> i" and d: "rowDay env (buildColIndex header) row \<noteq> None"
      and net: "rowNetwork (buildColIndex header) row \<noteq> []"
    for name i sumKey countKey
  proof -
    let ?ci = "buildColIndex header" and ?st = "parseDataRows env header (h # pre)"
    from d obtain dd where dd: "rowDay env ?ci row = Some dd" by auto
    have nh: "\<not> isHeader ?st" by (simp add: isHeader_parseDataRows)
    have step: "parseDataRows env header (h # pre @ [row]) = processRow env ?ci ?st row"
      using parseDataRows_snoc[of env header "h # pre" row] by simp
    have "name \<in> set (map fst (snd (currentBucket ?st dd (rowNetwork ?ci row), invalidFieldStats ?st)))"
      using INVALID_KEYS_mem(3)[OF mem] by (simp add: keys_parseDataRows)
    from invalidCount_accumulate[OF mem this, of env row] absent[OF short]
    show ?thesis
      by (simp add: step processRow_valid[OF nh dd net])
  qed
  show ?thesis
    using absent[of row] counted run_success[of world filePath hdr rest rows env options]
    by (auto simp add: parseNumeric_absent processRow_padded processedRows_parseDataRows Let_def)
qed

text \<open>The instance of claim C9 at the five-cell record of the demo file.\<close>

theorem short_rows_are_counted_not_fatal_witness:
  "(COL_maxUser, ci_maxUser (buildColIndex REQUIRED_COLUMNS), K_maxUserSum, None)
     \<in> set (numericColumns (buildColIndex REQUIRED_COLUMNS)) \<and>
   int (length row_short) \<le> ci_maxUser (buildColIndex REQUIRED_COLUMNS) \<and>
   parseNumeric demo_env (cellAt row_short (ci_maxUser (buildColIndex REQUIRED_COLUMNS))) = None \<and>
   rowDay demo_env (buildColIndex REQUIRED_COLUMNS) row_short \<noteq> None \<and>
   rowNetwork (buildColIndex REQUIRED_COLUMNS) row_short \<noteq> [] \<and>
   invalidCount (invalidFieldStats
       (parseDataRows demo_env REQUIRED_COLUMNS [REQUIRED_COLUMNS, row_short])) COL_maxUser =
     invalidCount (invalidFieldStats
       (parseDataRows demo_env REQUIRED_COLUMNS [REQUIRED_COLUMNS])) COL_maxUser + 1 \<and>
   existsSync demo_world demo_path \<and>
   detectedPreviewRows demo_world = Some (REQUIRED_COLUMNS # tl demo_records) \<and>
   getMissingColumns REQUIRED_COLUMNS = [] \<and>
   parsedRecords demo_world = Some demo_records \<and> \<not> writeFails demo_world \<and>
   success (runCsvAggregation demo_env demo_world demo_path None) \<and>
   errorCode (runCsvAggregation demo_env demo_world demo_path None) = None \<and>
   resultProcessedRows (runCsvAggregation demo_env demo_world demo_path None) = 4"
proof -
  let ?ci = "buildColIndex REQUIRED_COLUMNS"
  have mem: "(COL_maxUser, ci_maxUser ?ci, K_maxUserSum, None) \<in> set (numericColumns ?ci)"
    by (simp add: numericColumns_def)
  have short: "int (length row_short) \<le> ci_maxUser ?ci"
    by (simp add: buildColIndex_required row_short_def)
  have ne: "rowNetwork ?ci row_short \<noteq> []" "rowDay demo_env ?ci row_short \<noteq> None"
    by (simp_all add: demo_rowNetwork demo_rowDay str_def)
  have w: "existsSync demo_world demo_path"
    "detectedPreviewRows demo_world = Some (REQUIRED_COLUMNS # tl demo_records)"
    "parsedRecords demo_world = Some demo_records" "\<not> writeFails demo_world"
    by (simp_all add: demo_world_def demo_records_def)
  note inst = short_rows_are_counted_not_fatal[where env = demo_env and ci = ?ci
    and row = row_short and header = REQUIRED_COLUMNS and h = REQUIRED_COLUMNS and pre = "[]"
    and world = demo_world and filePath = demo_path and hdr = REQUIRED_COLUMNS
    and rest = "tl demo_records" and rows = demo_records and options = None]
  from inst mem short have a:
    "parseNumeric demo_env (cellAt row_short (ci_maxUser ?ci)) = None" by fastforce
  from inst mem short ne have b: "invalidCount (invalidFieldStats
       (parseDataRows demo_env REQUIRED_COLUMNS [REQUIRED_COLUMNS, row_short])) COL_maxUser =
     invalidCount (invalidFieldStats
       (parseDataRows demo_env REQUIRED_COLUMNS [REQUIRED_COLUMNS])) COL_maxUser + 1"
    by (fastforce simp add: Let_def)
  from inst w getMissingColumns_required have c:
    "success (runCsvAggregation demo_env demo_world demo_path None) \<and>
     errorCode (runCsvAggregation demo_env demo_world demo_path None) = None \<and>
     resultProcessedRows (runCsvAggregation demo_env demo_world demo_path None) = 4"
    by (simp add: demo_records_def)
  show ?thesis using mem short ne a b c w getMissingColumns_required by simp
qed

section \<open>Properties of the parsers and formatters\<close>

lemma formatAverage_nonpositive: "js_le countv (Fin 0) \<Longrightarrow> formatAverage env sumv countv = []"
  by (simp add: formatAverage_def)

text \<open>
  Claim C7. When the count of valid observations is zero or negative, \<open>formatAverage\<close> returns
  the empty string, never \<open>0\<close> or \<open>NaN\<close>; so each of the eight averaged cells of a row built
  from a bucket, be it a detail, subtotal or grand-total row, is empty when its count is.
\<close>

theorem average_cells_blank_without_observations:
  "(js_le countv (Fin 0) \<longrightarrow>
      formatAverage env sumv countv = [] \<and> formatAverage env sumv countv \<noteq> str ''0'' \<and>
      formatAverage env sumv countv \<noteq> str ''NaN'') \<and>
   (js_le (ulPrbCount item) (Fin 0) \<longrightarrow> col_ulPrb (toOutputRow env item dv nv) = []) \<and>
   (js_le (dlPrbCount item) (Fin 0) \<longrightarrow> col_dlPrb (toOutputRow env item dv nv) = []) \<and>
   (js_le (ulRateCount item) (Fin 0) \<longrightarrow> col_ulRate (toOutputRow env item dv nv) = []) \<and>
   (js_le (dlRateCount item) (Fin 0) \<longrightarrow> col_dlRate (toOutputRow env item dv nv) = []) \<and>
   (js_le (accessRateCount item) (Fin 0) \<longrightarrow> col_accessRate (toOutputRow env item dv nv) = []) \<and>
   (js_le (dropRateCount item) (Fin 0) \<longrightarrow> col_dropRate (toOutputRow env item dv nv) = []) \<and>
   (js_le (handoverRateCount item) (Fin 0) \<longrightarrow>
      col_handoverRate (toOutputRow env item dv nv) = []) \<and>
   (js_le (interferenceCount item) (Fin 0) \<longrightarrow>
      col_interference (toOutputRow env item dv nv) = [])"
  by (simp add: toOutputRow_def formatAverage_nonpositive str_def)

theorem average_cells_blank_without_observations_witness:
  "js_le (Fin 0) (Fin 0) \<and> formatAverage demo_env (Fin 5) (Fin 0) = [] \<and>
   js_le (ulPrbCount (createEmptyBucket (str ''2025-01-01'') (str ''NSA''))) (Fin 0) \<and>
   col_ulPrb (toOutputRow demo_env (createEmptyBucket (str ''2025-01-01'') (str ''NSA'')) None None) = [] \<and>
   col_interference (toOutputRow demo_env (createEmptyBucket (str ''2025-01-01'') (str ''NSA'')) None None) = []"
  using average_cells_blank_without_observations[of "Fin 0" demo_env "Fin 5"
          "createEmptyBucket (str ''2025-01-01'') (str ''NSA'')" None None]
  by (simp add: createEmptyBucket_def)

lemma dropWhile_append_nonws:
  "\<not> P x \<Longrightarrow> dropWhile P (xs @ x # ys) = dropWhile P xs @ x # ys"
  by (induction xs) auto

lemma trim_append_percents:
  assumes "v = [] \<or> \<not> isWhiteSpace (last v)"
  shows "filter (\<lambda>c. c \<noteq> 0x2C \<and> c \<noteq> 0x25) (trim (v @ replicate k 0x25)) =
         filter (\<lambda>c. c \<noteq> 0x2C \<and> c \<noteq> 0x25) (trim v)"
proof (cases k)
  case 0
  then show ?thesis by simp
next
  case (Suc j)
  have p: "\<not> isWhiteSpace 0x25" by (simp add: isWhiteSpace_def)
  have r: "replicate k (0x25::nat) = replicate j 0x25 @ [0x25]"
    by (simp add: Suc replicate_append_same)
  let ?w = "dropWhile isWhiteSpace v"
  have s: "trimStart (v @ replicate k 0x25) = ?w @ replicate k 0x25"
  proof (cases "\<forall>x\<in>set v. isWhiteSpace x")
    case True
    then have "dropWhile isWhiteSpace v = []" by simp
    moreover have "dropWhile isWhiteSpace (v @ replicate k 0x25) = replicate k 0x25"
      using True p by (simp add: dropWhile_append Suc)
    ultimately show ?thesis by (simp add: trimStart_def)
  next
    case False
    then show ?thesis by (auto simp add: trimStart_def dropWhile_append)
  qed
  have e: "trimEnd (?w @ replicate k 0x25) = ?w @ replicate k 0x25"
    using p by (simp add: trimEnd_def r)
  have t: "trimEnd ?w = ?w"
  proof (cases "?w = []")
    case True
    show ?thesis unfolding trimEnd_def True by simp
  next
    case False
    then have "v \<noteq> []" by auto
    with assms have l: "\<not> isWhiteSpace (last v)" by simp
    from False have "last ?w = last v"
      by (metis takeWhile_dropWhile_id last_appendR)
    with l False have "\<not> isWhiteSpace (hd (rev ?w))" by (simp add: hd_rev)
    with False show ?thesis
      by (cases "rev ?w") (auto simp add: trimEnd_def)
  qed
  have "trim v = ?w" by (simp add: trim_def trimStart_def t)
  moreover have "trim (v @ replicate k 0x25) = ?w @ replicate k 0x25"
    by (simp add: trim_def s e)
  ultimately show ?thesis by simp
qed

lemma demo_Number_888: "demo_Number (str ''88.8'') = round_double (444 / 5)"
  by (simp add: demo_Number_def demo_unsigned_def str_def isDigit_def digitsValue_def)

lemma round_888: "round_double (444 / 5) = Fin (6248744482976563 / 70368744177664)"
  by code_simp

text \<open>
  Claim C5. \<open>parseNumeric\<close> trims its argument and deletes every comma and every percent
  sign, so thousands separators and trailing percent signs in particular; it returns \<open>null\<close>
  when nothing is left or when \<open>Number\<close> of what is left is not finite, and that number
  otherwise. Percent signs at the end change nothing: the value is not divided by 100, and
  \<open>88.8%\<close> parses to what \<open>88.8\<close> parses to.
\<close>

theorem parseNumeric_behaviour:
  "parseNumeric env (Some v) =
     (let stripped = filter (\<lambda>c. c \<noteq> 0x2C \<and> c \<noteq> 0x25) (trim v)
      in if stripped = [] \<or> \<not> isFinite (js_Number env stripped) then None
         else Some (js_Number env stripped)) \<and>
   (v = [] \<or> \<not> isWhiteSpace (last v) \<longrightarrow>
      parseNumeric env (Some (v @ replicate k 0x25)) = parseNumeric env (Some v)) \<and>
   (isFinite (js_Number env (str ''88.8'')) \<longrightarrow>
      parseNumeric env (Some (str ''88.8%'')) = Some (js_Number env (str ''88.8'')))"
proof -
  have a: "parseNumeric env (Some w) =
     (let stripped = filter (\<lambda>c. c \<noteq> 0x2C \<and> c \<noteq> 0x25) (trim w)
      in if stripped = [] \<or> \<not> isFinite (js_Number env stripped) then None
         else Some (js_Number env stripped))" for w
    by (simp add: parseNumeric_def cleanNumeric_filter Let_def)
  have b: "parseNumeric env (Some (v @ replicate k 0x25)) = parseNumeric env (Some v)"
    if "v = [] \<or> \<not> isWhiteSpace (last v)"
    unfolding a using trim_append_percents[OF that, of k] by simp
  have c: "filter (\<lambda>c. c \<noteq> 0x2C \<and> c \<noteq> 0x25) (trim (str ''88.8%'')) = str ''88.8''"
    by (simp add: str_def trim_def trimStart_def trimEnd_def isWhiteSpace_def)
  have d: "parseNumeric env (Some (str ''88.8%'')) = Some (js_Number env (str ''88.8''))"
    if "isFinite (js_Number env (str ''88.8''))"
    unfolding a[of "str ''88.8%''"] c using that by (simp add: Let_def str_def)
  show ?thesis using a[of v] b d by blast
qed

text \<open>With the demo built-ins the value is the double nearest to 88.8.\<close>

theorem parseNumeric_behaviour_witness:
  "\<not> isWhiteSpace (last (str ''88.8'')) \<and> isFinite (js_Number demo_env (str ''88.8'')) \<and>
   parseNumeric demo_env (Some (str ''88.8%'')) = Some (Fin (6248744482976563 / 70368744177664)) \<and>
   parseNumeric demo_env (Some (str ''88.8'' @ replicate 1 0x25)) =
     parseNumeric demo_env (Some (str ''88.8''))"
proof -
  have n: "js_Number demo_env (str ''88.8'') = Fin (6248744482976563 / 70368744177664)"
    by (simp add: demo_env_def demo_Number_888 round_888)
  have w: "\<not> isWhiteSpace (last (str ''88.8''))" by (simp add: str_def isWhiteSpace_def)
  from parseNumeric_behaviour[of demo_env "str ''88.8''" 1] n w
  show ?thesis by simp
qed

section \<open>Properties of the choice of the output path\<close>

declare firstFreeIndex.simps [simp del]

lemma firstFreeIndex_None:
  "(\<And>i. index \<le> i \<Longrightarrow> i < 10000 \<Longrightarrow> fs (numberedPath env base i)) \<Longrightarrow>
   firstFreeIndex env fs base index = None"
proof (induction env fs base index rule: firstFreeIndex.induct)
  case (1 env fs base index)
  show ?case
  proof (cases "index < 10000")
    case True
    with "1.prems"[of index] have t: "fs (numberedPath env base index)" by simp
    have "firstFreeIndex env fs base (index + 1) = None"
      using "1.IH"[OF True refl] t "1.prems" by simp
    with True t show ?thesis by (subst firstFreeIndex.simps) simp
  next
    case False
    then show ?thesis by (subst firstFreeIndex.simps) simp
  qed
qed

lemma firstFreeIndex_first:
  "index \<le> i \<Longrightarrow> i < 10000 \<Longrightarrow> \<not> fs (numberedPath env base i) \<Longrightarrow>
   (\<And>j. index \<le> j \<Longrightarrow> j < i \<Longrightarrow> fs (numberedPath env base j)) \<Longrightarrow>
   firstFreeIndex env fs base index = Some (numberedPath env base i)"
proof (induction env fs base index rule: firstFreeIndex.induct)
  case (1 env fs base index)
  from "1.prems" have lt: "index < 10000" by simp
  show ?case
  proof (cases "index = i")
    case True
    with "1.prems" lt show ?thesis by (subst firstFreeIndex.simps) simp
  next
    case False
    with "1.prems" have t: "fs (numberedPath env base index)" and le: "index + 1 \<le> i" by simp_all
    have "firstFreeIndex env fs base (index + 1) = Some (numberedPath env base i)"
      using "1.IH"[OF lt refl _ le] t "1.prems" by simp
    with lt t show ?thesis by (subst firstFreeIndex.simps) simp
  qed
qed

lemma firstFreeIndex_free:
  "firstFreeIndex env fs base index = Some c \<Longrightarrow> \<not> fs c"
proof (induction env fs base index rule: firstFreeIndex.induct)
  case (1 env fs base index)
  show ?case
  proof (cases "index < 10000")
    case True
    show ?thesis
    proof (cases "fs (numberedPath env base index)")
      case False
      from "1.prems" True False have "c = numberedPath env base index"
        by (subst (asm) firstFreeIndex.simps) simp
      with False show ?thesis by simp
    next
      case t: True
      from "1.prems" True t have "firstFreeIndex env fs base (index + 1) = Some c"
        by (subst (asm) firstFreeIndex.simps) simp
      from "1.IH"[OF True refl _ this] t show ?thesis by simp
    qed
  next
    case False
    with "1.prems" show ?thesis by (subst (asm) firstFreeIndex.simps) simp
  qed
qed

lemma firstFreeIndex_Some_if:
  assumes "index \<le> i" "i < 10000" "\<not> fs (numberedPath env base i)"
  shows "\<exists>c. firstFreeIndex env fs base index = Some c"
proof -
  define P where "P j \<longleftrightarrow> index \<le> j \<and> j < 10000 \<and> \<not> fs (numberedPath env base j)" for j
  have "P i" using assms by (simp add: P_def)
  define m where "m = (LEAST j. P j)"
  have pm: "P m" unfolding m_def using \<open>P i\<close> by (rule LeastI)
  have "fs (numberedPath env base j)" if "index \<le> j" "j < m" for j
  proof (rule ccontr)
    assume "\<not> fs (numberedPath env base j)"
    with that pm have "P j" by (simp add: P_def)
    then have "m \<le> j" unfolding m_def by (rule Least_le)
    with that show False by simp
  qed
  with pm show ?thesis
    using firstFreeIndex_first[of index m fs env base] by (auto simp: P_def)
qed

lemma getOutputPath_first:
  "getOutputPath env inputPath =
     path_join env (dir (getOutputBasePath env inputPath))
       (fileName (getOutputBasePath env inputPath) @ STAT_SUFFIX @ ext (getOutputBasePath env inputPath))"
  by (simp add: getOutputPath_def Let_def)

lemma getNext_cases:
  "getNextAvailableOutputPath env fs now inputPath =
     (if \<not> fs (getOutputPath env inputPath) then getOutputPath env inputPath
      else case firstFreeIndex env fs (getOutputBasePath env inputPath) 1 of
             Some candidate \<Rightarrow> candidate
           | None \<Rightarrow> numberedPath env (getOutputBasePath env inputPath) now)"
  by (simp add: getNextAvailableOutputPath_def getOutputPath_first Let_def)

text \<open>
  The selection where the search succeeds. The function returns the suffixed name when it is
  free; otherwise the first free one of the names numbered 1 to 9999; otherwise, when all of
  these exist, the name numbered with the time stamp. Whenever the suffixed name or one of
  the 9999 numbered names is free, the selected path does not exist at the time of selection,
  and a run whose file exists, whose header is complete and whose reading and writing do not
  fail succeeds with the selected path.
\<close>

theorem output_path_selection:
  "let base = getOutputBasePath env inputPath;
       firstPath = getOutputPath env inputPath;
       p = getNextAvailableOutputPath env fs now inputPath
   in (\<not> fs firstPath \<longrightarrow> p = firstPath) \<and>
      (\<forall>i. fs firstPath \<and> 1 \<le> i \<and> i < 10000 \<and> \<not> fs (numberedPath env base i) \<and>
           (\<forall>j. 1 \<le> j \<and> j < i \<longrightarrow> fs (numberedPath env base j)) \<longrightarrow>
           p = numberedPath env base i) \<and>
      (fs firstPath \<and> (\<forall>i. 1 \<le> i \<and> i < 10000 \<longrightarrow> fs (numberedPath env base i)) \<longrightarrow>
         p = numberedPath env base now) \<and>
      (\<not> fs firstPath \<or> (\<exists>i. 1 \<le> i \<and> i < 10000 \<and> \<not> fs (numberedPath env base i)) \<longrightarrow> \<not> fs p) \<and>
      (existsSync world inputPath \<and> detectedPreviewRows world = Some (hdr # rest) \<and>
       getMissingColumns hdr = [] \<and> parsedRecords world = Some rows \<and> \<not> writeFails world \<longrightarrow>
         success (runCsvAggregation env world inputPath options) \<and>
         outputPath (runCsvAggregation env world inputPath options) =
           Some (getNextAvailableOutputPath env (existsSync world) (dateNow world) inputPath))"
proof -
  let ?base = "getOutputBasePath env inputPath"
  let ?p = "getNextAvailableOutputPath env fs now inputPath"
  have a: "?p = getOutputPath env inputPath" if "\<not> fs (getOutputPath env inputPath)"
    using that by (simp add: getNext_cases)
  have b: "?p = numberedPath env ?base i"
    if "fs (getOutputPath env inputPath)" "1 \<le> i" "i < 10000" "\<not> fs (numberedPath env ?base i)"
      "\<And>j. 1 \<le> j \<Longrightarrow> j < i \<Longrightarrow> fs (numberedPath env ?base j)" for i
    using that firstFreeIndex_first[of 1 i fs env ?base] by (simp add: getNext_cases)
  have c: "?p = numberedPath env ?base now"
    if "fs (getOutputPath env inputPath)" "\<And>i. 1 \<le> i \<Longrightarrow> i < 10000 \<Longrightarrow> fs (numberedPath env ?base i)"
    using that firstFreeIndex_None[of 1 fs env ?base] by (simp add: getNext_cases)
  have d: "\<not> fs ?p"
    if "\<not> fs (getOutputPath env inputPath) \<or> (\<exists>i. 1 \<le> i \<and> i < 10000 \<and> \<not> fs (numberedPath env ?base i))"
  proof (cases "fs (getOutputPath env inputPath)")
    case False
    then show ?thesis by (simp add: getNext_cases)
  next
    case True
    with that obtain i where "1 \<le> i" "i < 10000" "\<not> fs (numberedPath env ?base i)" by auto
    from firstFreeIndex_Some_if[of 1 i fs env ?base, OF this] obtain cnd
      where s: "firstFreeIndex env fs ?base 1 = Some cnd" by auto
    with firstFreeIndex_free[OF s] True show ?thesis by (simp add: getNext_cases)
  qed
  have e: "success (runCsvAggregation env world inputPath options) \<and>
         outputPath (runCsvAggregation env world inputPath options) =
           Some (getNextAvailableOutputPath env (existsSync world) (dateNow world) inputPath)"
    if "existsSync world inputPath" "detectedPreviewRows world = Some (hdr # rest)"
       "getMissingColumns hdr = []" "parsedRecords world = Some rows" "\<not> writeFails world"
    using run_success[OF that, of env options] by simp
  show ?thesis
    unfolding Let_def
    apply (intro conjI allI impI)
    subgoal using a by simp
    subgoal for i using b[of i] by simp
    subgoal using c by simp
    subgoal using d by simp
    subgoal using e by simp
    subgoal using e by simp
    done
qed

lemma demo_base:
  "getOutputBasePath demo_env demo_path = \<lparr>dir = str ''/tmp'', ext = str ''.csv'', fileName = str ''input''\<rparr>"
  by (simp add: getOutputBasePath_def demo_env_def demo_path_def demo_dirname_def demo_extname_def
        demo_basename_def lastSegment_def str_def)

declare natToString.simps [simp del]

lemma demo_env_sel:
  "js_Number demo_env = demo_Number" "js_toFixed demo_env = demo_toFixed"
  "js_toString demo_env = demo_toString" "dayjs_strict demo_env = demo_dayjs_strict"
  "dayjs_loose demo_env = (\<lambda>raw. None)" "localeCompare demo_env = demo_localeCompare"
  "path_dirname demo_env = demo_dirname" "path_extname demo_env = demo_extname"
  "path_basename demo_env = demo_basename" "path_join demo_env = demo_join"
  by (simp_all add: demo_env_def)

lemma demo_first_path:
  "getOutputPath demo_env demo_path = str ''/tmp/input-'' @ [0x7EDF, 0x8BA1] @ str ''.csv''"
  by (simp add: getOutputPath_def demo_base Let_def STAT_SUFFIX_def demo_env_sel demo_join_def str_def)

lemma demo_numbered_1:
  "numberedPath demo_env (getOutputBasePath demo_env demo_path) 1 =
     str ''/tmp/input-'' @ [0x7EDF, 0x8BA1] @ str ''(1).csv''"
  by (simp add: numberedPath_def demo_base STAT_SUFFIX_def demo_env_sel demo_join_def str_def
        natToString.simps)

lemma demo_numbered_now:
  "numberedPath demo_env (getOutputBasePath demo_env demo_path) 1700000000000 =
     str ''/tmp/input-'' @ [0x7EDF, 0x8BA1] @ str ''(1700000000000).csv''"
  by (simp add: numberedPath_def demo_base STAT_SUFFIX_def demo_env_sel demo_join_def str_def
        natToString.simps)

text \<open>The instance at a directory where only the suffixed name is taken.\<close>

theorem output_path_selection_witness:
  "taken_fs (getOutputPath demo_env demo_path) \<and>
   \<not> taken_fs (numberedPath demo_env (getOutputBasePath demo_env demo_path) 1) \<and>
   getNextAvailableOutputPath demo_env taken_fs 0 demo_path =
     str ''/tmp/input-'' @ [0x7EDF, 0x8BA1] @ str ''(1).csv'' \<and>
   \<not> taken_fs (getNextAvailableOutputPath demo_env taken_fs 0 demo_path) \<and>
   \<not> existsSync demo_world (getOutputPath demo_env demo_path) \<and>
   getNextAvailableOutputPath demo_env (existsSync demo_world) 0 demo_path =
     getOutputPath demo_env demo_path \<and>
   existsSync demo_world demo_path \<and>
   detectedPreviewRows demo_world = Some (REQUIRED_COLUMNS # tl demo_records) \<and>
   getMissingColumns REQUIRED_COLUMNS = [] \<and> parsedRecords demo_world = Some demo_records \<and>
   \<not> writeFails demo_world \<and>
   success (runCsvAggregation demo_env demo_world demo_path None) \<and>
   outputPath (runCsvAggregation demo_env demo_world demo_path None) =
     Some (str ''/tmp/input-'' @ [0x7EDF, 0x8BA1] @ str ''.csv'')"
proof -
  let ?base = "getOutputBasePath demo_env demo_path"
  have t: "taken_fs (getOutputPath demo_env demo_path)" by (simp add: taken_fs_def)
  have f: "\<not> taken_fs (numberedPath demo_env ?base 1)"
    unfolding taken_fs_def demo_numbered_1 demo_first_path by (simp add: demo_path_def str_def)
  have nf: "\<not> existsSync demo_world (getOutputPath demo_env demo_path)"
    unfolding demo_first_path by (simp add: demo_world_def demo_path_def str_def)
  have w: "existsSync demo_world demo_path"
    "detectedPreviewRows demo_world = Some (REQUIRED_COLUMNS # tl demo_records)"
    "parsedRecords demo_world = Some demo_records" "\<not> writeFails demo_world"
    "dateNow demo_world = 1700000000000"
    by (simp_all add: demo_world_def demo_records_def)
  from output_path_selection[where env = demo_env and inputPath = demo_path and fs = taken_fs
         and now = 0] t f
  have a: "getNextAvailableOutputPath demo_env taken_fs 0 demo_path = numberedPath demo_env ?base 1"
    by (simp add: Let_def)
  from output_path_selection[where env = demo_env and inputPath = demo_path and fs = taken_fs
         and now = 0] t f
  have b: "\<not> taken_fs (getNextAvailableOutputPath demo_env taken_fs 0 demo_path)"
    unfolding Let_def by (metis le_refl less_numeral_extra(1) numeral_One one_less_numeral_iff semiring_norm(76))
  from output_path_selection[where env = demo_env and inputPath = demo_path
         and fs = "existsSync demo_world" and now = 0] nf
  have c: "getNextAvailableOutputPath demo_env (existsSync demo_world) 0 demo_path =
     getOutputPath demo_env demo_path"
    by (simp add: Let_def)
  from output_path_selection[where env = demo_env and inputPath = demo_path
         and fs = "existsSync demo_world" and now = 1700000000000] nf
  have c': "getNextAvailableOutputPath demo_env (existsSync demo_world) 1700000000000 demo_path =
     getOutputPath demo_env demo_path"
    by (simp add: Let_def)
  from output_path_selection[where env = demo_env and inputPath = demo_path and world = demo_world
         and hdr = REQUIRED_COLUMNS and rest = "tl demo_records" and rows = demo_records
         and options = None] w getMissingColumns_required
  have d: "success (runCsvAggregation demo_env demo_world demo_path None) \<and>
   outputPath (runCsvAggregation demo_env demo_world demo_path None) =
     Some (getNextAvailableOutputPath demo_env (existsSync demo_world) 1700000000000 demo_path)"
    by (simp add: Let_def)
  show ?thesis
    using t f nf w(1-4) a b c d getMissingColumns_required
    by (simp add: c' demo_numbered_1[unfolded One_nat_def] demo_first_path)
qed

lemma crowded_numbered:
  "1 \<le> i \<Longrightarrow> i < 10000 \<Longrightarrow>
   crowded_fs (numberedPath demo_env (getOutputBasePath demo_env demo_path) i)"
  by (simp add: crowded_fs_def)

lemma crowded_next:
  "getNextAvailableOutputPath demo_env crowded_fs 1700000000000 demo_path =
     str ''/tmp/input-'' @ [0x7EDF, 0x8BA1] @ str ''(1700000000000).csv''"
proof -
  have "crowded_fs (getOutputPath demo_env demo_path)" by (simp add: crowded_fs_def)
  moreover have "firstFreeIndex demo_env crowded_fs (getOutputBasePath demo_env demo_path) 1 = None"
    by (rule firstFreeIndex_None) (simp add: crowded_numbered)
  ultimately show ?thesis by (simp add: getNext_cases demo_numbered_now)
qed

lemma legacy_stops_on_existing_output:
  "getOutputPathLegacy env inputPath = getOutputPath env inputPath"
  "legacyOutputPath env fs inputPath =
     (if fs (getOutputPath env inputPath) then Inl OUTPUT_EXISTS else Inr (getOutputPath env inputPath))"
  by (simp_all add: legacyOutputPath_def getOutputPathLegacy_def getOutputPath_def
        getOutputBasePath_def Let_def)

text \<open>
  Claim C3 asks that the selected output path never exists at the time of selection and that
  a collision is resolved by a fresh name, never by an error. \<open>getNextAvailableOutputPath\<close>
  looks up the suffixed name and each of the names numbered 1 to 9999 before it returns them,
  but it returns the name numbered with the time stamp without looking it up: in the crowded
  directory the run succeeds and the path it selects exists. The other revision of the
  service, in \<open>preload/index.ts\<close>, selects no other name at all: where only the suffixed name
  is taken it stops with \<open>OUTPUT_EXISTS\<close>.
\<close>

theorem output_path_exists_counterexample:
  "success (runCsvAggregation demo_env crowded_world demo_path None) \<and>
   outputPath (runCsvAggregation demo_env crowded_world demo_path None) =
     Some (str ''/tmp/input-'' @ [0x7EDF, 0x8BA1] @ str ''(1700000000000).csv'') \<and>
   existsSync crowded_world (str ''/tmp/input-'' @ [0x7EDF, 0x8BA1] @ str ''(1700000000000).csv'') \<and>
   legacyOutputPath demo_env taken_fs demo_path = Inl OUTPUT_EXISTS"
proof -
  have w: "existsSync crowded_world = crowded_fs"
    "detectedPreviewRows crowded_world = Some (REQUIRED_COLUMNS # tl demo_records)"
    "parsedRecords crowded_world = Some demo_records" "\<not> writeFails crowded_world"
    "dateNow crowded_world = 1700000000000"
    by (simp_all add: crowded_world_def demo_world_def demo_records_def)
  have e: "existsSync crowded_world demo_path" by (simp add: w crowded_fs_def)
  have x: "crowded_fs (str ''/tmp/input-'' @ [0x7EDF, 0x8BA1] @ str ''(1700000000000).csv'')"
    unfolding demo_numbered_now[symmetric] by (simp add: crowded_fs_def)
  have l: "legacyOutputPath demo_env taken_fs demo_path = Inl OUTPUT_EXISTS"
    by (simp add: legacy_stops_on_existing_output taken_fs_def)
  from run_success[OF e w(2) getMissingColumns_required w(3) w(4), of demo_env None] x l
  show ?thesis by (simp add: w crowded_next)
qed

section \<open>Properties of the output rows\<close>

text \<open>The sort: a permutation, ascending when the comparison is consistent.\<close>

lemma mset_insertBy: "mset (insertBy cmp x xs) = add_mset x (mset xs)"
  by (induction xs) auto

lemma mset_sortBy: "mset (sortBy cmp xs) = mset xs"
  unfolding sortBy_def by (induction xs) (auto simp: mset_insertBy)

lemma set_sortBy: "set (sortBy cmp xs) = set xs"
  using mset_sortBy[of cmp xs] by (rule mset_eq_setD)






lemma consistent_on_key: "consistentCompare cmp \<Longrightarrow> consistentCompare (\<lambda>a b. cmp (f a) (f b))"
  unfolding consistentCompare_def by blast



lemma ascending_map_key:
  "ascendingBy (\<lambda>a b. cmp (f a) (f b)) xs = ascendingBy cmp (map f xs)"
  by (simp add: ascendingBy_def sorted_wrt_map)



lemma groupByDate_snoc:
  "groupByDate (xs @ [x]) =
     AList.update (date x)
       ((case map_of (groupByDate xs) (date x) of None \<Rightarrow> [] | Some l \<Rightarrow> l) @ [x])
       (groupByDate xs)"
  by (simp add: groupByDate_def Let_def)

lemma groupByDate_Nil: "groupByDate [] = []"
  by (simp add: groupByDate_def)

lemma groupByDate_spec:
  "distinct (map fst (groupByDate xs)) \<and>
   (\<forall>d. map_of (groupByDate xs) d =
          (if d \<in> date ` set xs then Some (filter (\<lambda>b. date b = d) xs) else None))"
proof (induction xs rule: rev_induct)
  case Nil
  then show ?case by (simp add: groupByDate_Nil)
next
  case (snoc x xs)
  let ?m = "groupByDate xs"
  let ?old = "case map_of ?m (date x) of None \<Rightarrow> [] | Some l \<Rightarrow> l"
  from snoc have d: "distinct (map fst ?m)"
    and m: "\<And>d. map_of ?m d = (if d \<in> date ` set xs then Some (filter (\<lambda>b. date b = d) xs) else None)"
    by auto
  have none: "filter (\<lambda>b. date b = date x) xs = []" if "date x \<notin> date ` set xs"
  proof -
    have "date b \<noteq> date x" if "b \<in> set xs" for b
      using that \<open>date x \<notin> date ` set xs\<close> by (metis imageI)
    then show ?thesis by (simp add: filter_empty_conv)
  qed
  have old: "?old = filter (\<lambda>b. date b = date x) xs"
    by (simp add: m none)
  have dist: "distinct (map fst (AList.update (date x) (?old @ [x]) ?m))"
    using d by (simp add: distinct_update)
  have val: "map_of (AList.update (date x) (?old @ [x]) ?m) k =
      (if k \<in> date ` set (xs @ [x]) then Some (filter (\<lambda>b. date b = k) (xs @ [x])) else None)" for k
  proof (cases "k = date x")
    case True
    then show ?thesis unfolding old by (simp add: update_conv')
  next
    case False
    then have "map_of (AList.update (date x) (?old @ [x]) ?m) k = map_of ?m k"
      by (simp add: update_conv')
    with False show ?thesis by (simp add: m)
  qed
  show ?case unfolding groupByDate_snoc using dist val by blast
qed


lemma groupByDate_entry:
  assumes "(d, g) \<in> set (groupByDate xs)"
  shows "g = filter (\<lambda>b. date b = d) xs"
proof -
  have "distinct (map fst (groupByDate xs))" using groupByDate_spec[of xs] by simp
  from map_of_is_SomeI[OF this assms] have "map_of (groupByDate xs) d = Some g" .
  moreover have "map_of (groupByDate xs) d =
      (if d \<in> date ` set xs then Some (filter (\<lambda>b. date b = d) xs) else None)"
    using groupByDate_spec[of xs] by simp
  ultimately show ?thesis by (simp split: if_splits)
qed

lemma mset_update_append:
  "mset (concat (map snd (AList.update k
       ((case map_of m k of None \<Rightarrow> [] | Some l \<Rightarrow> l) @ [x]) m))) =
   add_mset x (mset (concat (map snd m)))"
  by (induction m) auto

lemma mset_groupByDate: "mset (concat (map snd (groupByDate xs))) = mset xs"
proof (induction xs rule: rev_induct)
  case Nil
  then show ?case by (simp add: groupByDate_Nil)
next
  case (snoc x xs)
  then show ?case unfolding groupByDate_snoc by (simp add: mset_update_append)
qed

lemma mset_concat_map:
  "mset (concat (map f es)) = sum_mset (image_mset (\<lambda>e. mset (f e)) (mset es))"
  by (induction es) auto

lemma mset_concat_map_perm:
  "mset es = mset fs \<Longrightarrow> mset (concat (map f es)) = mset (concat (map f fs))"
  by (simp add: mset_concat_map)




lemma entries_entry:
  "(d, g) \<in> set (sortBy (compareEntry env) (groupByDate xs)) \<Longrightarrow>
     g = filter (\<lambda>b. date b = d) xs"
  by (simp add: set_sortBy groupByDate_entry)

lemma entries_buckets:
  "mset (concat (map snd (sortBy (compareEntry env) (groupByDate xs)))) = mset xs"
proof -
  have "mset (concat (map snd (sortBy (compareEntry env) (groupByDate xs)))) =
        mset (concat (map snd (groupByDate xs)))"
    by (rule mset_concat_map_perm) (rule mset_sortBy)
  then show ?thesis by (simp add: mset_groupByDate)
qed



lemma mset_sortedBuckets: "mset (sortedBuckets env bucketMap) = mset (map snd bucketMap)"
  by (simp add: sortedBuckets_def mset_sortBy)


lemma toOutputRow_cells:
  "col_time (toOutputRow env b (Some tv) n) = tv"
  "col_time (toOutputRow env b None n) = date b"
  "col_network (toOutputRow env b t (Some nv)) = nv"
  "col_network (toOutputRow env b t None) = network b"
  by (simp_all add: toOutputRow_def)

lemma toOutputRow_numericCells:
  "numericCells (toOutputRow env b t n) = numericCells (toOutputRow env b None None)"
  by (simp add: toOutputRow_def numericCells_def)






lemma flowBucket_sel [simp]: "date (flowBucket d n v) = d" "network (flowBucket d n v) = n"
  by (simp_all add: flowBucket_def createEmptyBucket_def)






text \<open>The marks of the rows.\<close>

lemma markedBuckets_simps [simp]:
  "markedBuckets [] = []"
  "markedBuckets (None # ms) = markedBuckets ms"
  "markedBuckets (Some b # ms) = b # markedBuckets ms"
  "markedBuckets (ms @ ns) = markedBuckets ms @ markedBuckets ns"
  "markedBuckets (map Some bs) = bs"
  by (simp_all add: markedBuckets_def comp_def)

lemma detailOf_toOutputRow: "detailOf env b (toOutputRow env b None None)"
  by (simp add: detailOf_def toOutputRow_cells)

lemma detailOf_detailRow: "date b = d \<Longrightarrow> detailOf env b (detailRow env blank d b)"
  unfolding detailOf_def detailRow_def
  using toOutputRow_numericCells[of env b "Some (if blank then [] else d)" "Some (network b)"]
  by (simp add: toOutputRow_cells)

lemma marked_plain:
  "list_all2 (rowMarked env) (map Some bs) (map (\<lambda>b. toOutputRow env b None None) bs)"
  by (induction bs) (simp_all add: rowMarked_def detailOf_toOutputRow)

lemma marked_details:
  "(\<And>b. b \<in> set bs \<Longrightarrow> date b = d) \<Longrightarrow>
   list_all2 (rowMarked env) (map Some bs) (map (detailRow env blank d) bs)"
  by (induction bs) (simp_all add: rowMarked_def detailOf_detailRow)

lemma marked_entries:
  assumes "\<And>d g. (d, g) \<in> set es \<Longrightarrow> g = filter (\<lambda>b. date b = d) xs"
  shows "list_all2 (rowMarked env)
     (concat (map (\<lambda>(d, g). None # map Some (sortBy (compareNetwork env) g)) es))
     (concat (map (\<lambda>(d, dateBuckets).
         subtotalRow env d dateBuckets
         # map (detailRow env blank d) (sortBy (compareNetwork env) dateBuckets)) es))"
  using assms
proof (induction es)
  case Nil
  then show ?case by simp
next
  case (Cons e es)
  obtain d g where e: "e = (d, g)" by (cases e)
  from Cons.prems[of d g] e have g: "g = filter (\<lambda>b. date b = d) xs" by simp
  have "date b = d" if "b \<in> set (sortBy (compareNetwork env) g)" for b
    using that g by (simp add: set_sortBy)
  then have det: "list_all2 (rowMarked env) (map Some (sortBy (compareNetwork env) g))
      (map (detailRow env blank d) (sortBy (compareNetwork env) g))"
    by (rule marked_details)
  have sub: "rowMarked env None (subtotalRow env d g)"
    by (simp add: rowMarked_def subtotalRow_def toOutputRow_cells)
  have rest: "list_all2 (rowMarked env)
     (concat (map (\<lambda>(d, g). None # map Some (sortBy (compareNetwork env) g)) es))
     (concat (map (\<lambda>(d, dateBuckets).
         subtotalRow env d dateBuckets
         # map (detailRow env blank d) (sortBy (compareNetwork env) dateBuckets)) es))"
    by (rule Cons.IH) (simp add: Cons.prems)
  show ?case
    unfolding e using sub det rest by (simp add: list_all2_appendI)
qed

lemma marks_of_entries:
  "mset (markedBuckets (concat (map (\<lambda>(d, g). None # map Some (sortBy cmp g)) es))) =
   mset (concat (map snd es))"
  by (induction es) (auto simp: mset_sortBy)

lemma marked_rows_exist:
  "\<exists>marks. list_all2 (rowMarked env) marks (buildOutputRows env bucketMap options) \<and>
           mset (markedBuckets marks) = mset (map snd bucketMap)"
proof -
  let ?sorted = "sortedBuckets env bucketMap"
  let ?es = "sortBy (compareEntry env) (groupByDate ?sorted)"
  let ?blank = "optFlag options blankDateForDetailRowsWhenSubtotalEnabled True"
  let ?with = "concat (map (\<lambda>(d, dateBuckets).
         subtotalRow env d dateBuckets
         # map (detailRow env ?blank d) (sortBy (compareNetwork env) dateBuckets)) ?es)"
  let ?plain = "map (\<lambda>b. toOutputRow env b None None) ?sorted"
  let ?rows = "if optFlag options includeDailySubtotalRows False then ?with else ?plain"
  let ?marks = "if optFlag options includeDailySubtotalRows False
      then concat (map (\<lambda>(d, g). None # map Some (sortBy (compareNetwork env) g)) ?es)
      else map Some ?sorted"
  have ms: "mset ?sorted = mset (map snd bucketMap)" by (rule mset_sortedBuckets)
  have a: "list_all2 (rowMarked env) ?marks ?rows"
    by (simp add: marked_plain marked_entries[OF entries_entry])
  have b: "mset (markedBuckets ?marks) = mset (map snd bucketMap)"
    by (simp add: marks_of_entries entries_buckets ms)
  have g: "rowMarked env None (grandTotalRow env ?sorted)"
    by (simp add: rowMarked_def grandTotalRow_def toOutputRow_cells)
  show ?thesis
  proof (cases "optFlag options includeGrandTotalRow False")
    case True
    then have r: "buildOutputRows env bucketMap options = ?rows @ [grandTotalRow env ?sorted]"
      by (simp add: buildOutputRows_def Let_def)
    have "list_all2 (rowMarked env) (?marks @ [None]) (?rows @ [grandTotalRow env ?sorted])"
      using a g by (intro list_all2_appendI) simp_all
    moreover have "mset (markedBuckets (?marks @ [None])) = mset (map snd bucketMap)"
      using b by simp
    ultimately show ?thesis unfolding r by blast
  next
    case False
    then have r: "buildOutputRows env bucketMap options = ?rows"
      by (simp add: buildOutputRows_def Let_def)
    from a b show ?thesis unfolding r by blast
  qed
qed

text \<open>
  Claim C10. Whatever the options are, the rows can be marked so that every bucket marks
  exactly one row, its detail row, and the rows without a mark are synthesized ones, with a
  blank network. The detail row of a bucket has the ten numeric cells of the row that
  \<open>toOutputRow\<close> gives for the bucket alone, its network, and its date or nothing as time.
  With both options off, or absent, the rows are exactly these rows of \<open>toOutputRow\<close>, one for
  each bucket in sorted order.
\<close>

theorem options_leave_detail_rows_unchanged:
  "(\<exists>marks. list_all2 (rowMarked env) marks (buildOutputRows env bucketMap options) \<and>
            mset (markedBuckets marks) = mset (map snd bucketMap)) \<and>
   buildOutputRows env bucketMap None =
     map (\<lambda>b. toOutputRow env b None None) (sortedBuckets env bucketMap) \<and>
   buildOutputRows env bucketMap
       (Some \<lparr>includeDailySubtotalRows = Some False, includeGrandTotalRow = Some False,
              blankDateForDetailRowsWhenSubtotalEnabled = blank\<rparr>) =
     map (\<lambda>b. toOutputRow env b None None) (sortedBuckets env bucketMap) \<and>
   mset (sortedBuckets env bucketMap) = mset (map snd bucketMap)"
  using marked_rows_exist[of env bucketMap options]
  by (simp add: buildOutputRows_def optFlag_def mset_sortedBuckets)

section \<open>Properties of the arithmetic and of merging\<close>

lemma jsadd_commute: "jsadd a b = jsadd b a"
  by (cases a; cases b) (simp_all add: add.commute)

lemma quotient_of_of_int: "quotient_of (of_int m) = (m, 1)"
  by (simp add: of_int_rat quotient_of_Fract)

lemma bitlen_one: "bitlen 1 = 1"
  by (simp add: bitlen_alt_def)

lemma ilog2_of_int:
  assumes "0 < m"
  shows "ilog2 (of_int m) = bitlen m - 1"
proof -
  from assms have b: "1 \<le> bitlen m" by (simp add: bitlen_alt_def)
  have "(2::int) ^ nat (bitlen m - 1) \<le> m" using bitlen_bounds[OF assms] by simp
  then have "(of_int ((2::int) ^ nat (bitlen m - 1)) :: rat) \<le> of_int m"
    by (simp only: of_int_le_iff)
  then have "pow2 (bitlen m - 1) \<le> of_int m" using b by (simp add: pow2_def)
  then show ?thesis
    by (simp add: ilog2_def quotient_of_of_int Let_def bitlen_one)
qed

lemma round_half_even_of_int: "round_half_even (of_int n) = n"
  by (simp add: round_half_even_def)

lemma bitlen_le_53:
  assumes "0 < m" and "m < 2 ^ 53"
  shows "bitlen m \<le> 53"
proof (rule ccontr)
  assume "\<not> bitlen m \<le> 53"
  then have "54 \<le> bitlen m" by simp
  then have "(53::nat) \<le> nat (bitlen m - 1)" by simp
  then have "(2::int) ^ 53 \<le> 2 ^ nat (bitlen m - 1)" by (intro power_increasing) simp_all
  also have "\<dots> \<le> m" using bitlen_bounds[OF assms(1)] by simp
  finally show False using assms(2) by simp
qed

lemma round_double_of_int:
  assumes "\<bar>n\<bar> < 2 ^ 53"
  shows "round_double (of_int n) = Fin (of_int n)"
proof (cases "n = 0")
  case True
  then show ?thesis by (simp add: round_double_def)
next
  case False
  define m where "m = \<bar>n\<bar>"
  have m: "0 < m" "m < 2 ^ 53" using False assms by (simp_all add: m_def)
  define e where "e = max (ilog2 \<bar>of_int n :: rat\<bar> - 52) (- 1074)"
  have abs: "\<bar>of_int n :: rat\<bar> = of_int m" by (simp add: m_def)
  have e0: "e \<le> 0" "- 1074 \<le> e"
    using bitlen_le_53[OF m] by (simp_all add: e_def abs ilog2_of_int[OF m(1)])
  define j where "j = nat (- e)"
  have p: "pow2 e = 1 / 2 ^ j" using e0 by (auto simp add: pow2_def j_def)
  have q: "(of_int n :: rat) / pow2 e = of_int (n * 2 ^ j)" by (simp add: p)
  have r: "of_int (round_half_even (of_int n / pow2 e)) * pow2 e = (of_int n :: rat)"
    unfolding q round_half_even_of_int by (simp add: p)
  have "\<bar>of_int n :: rat\<bar> < overflow_threshold"
  proof -
    have "(of_int m :: rat) < of_int (2 ^ 53)" using m(2) by (simp only: of_int_less_iff)
    also have "\<dots> \<le> overflow_threshold" by (simp add: overflow_threshold_def)
    finally show ?thesis by (simp add: abs)
  qed
  then show ?thesis
    using False by (simp add: round_double_def Let_def e_def[symmetric] r)
qed

lemma round_double_int_sum:
  "\<bar>a + b\<bar> < 2 ^ 53 \<Longrightarrow> round_double (of_int a + of_int b) = Fin (of_int a + of_int b)"
  using round_double_of_int[of "a + b"] by simp

lemma jsadd_zero_left: "is_double q \<Longrightarrow> jsadd (Fin 0) (Fin q) = Fin q"
  by (simp add: is_double_def)


lemma allKeys_complete: "k \<in> set allKeys"
  by (cases k) (simp_all add: allKeys_def)

lemma getField_mergeBucket:
  "getField k (mergeBucket t s) = jsadd (getField k t) (getField k s)"
  by (cases k) (simp_all add: mergeBucket_def)

lemma date_network_mergeBucket [simp]:
  "date (mergeBucket t s) = date t" "network (mergeBucket t s) = network t"
  by (simp_all add: mergeBucket_def)

lemma getField_createEmptyBucket [simp]: "getField k (createEmptyBucket d n) = Fin 0"
  by (cases k) (simp_all add: createEmptyBucket_def)

lemma bucket_eqI:
  assumes "date a = date b" and "network a = network b" and "\<And>k. getField k a = getField k b"
  shows "a = b"
proof -
  note f = assms(3)[of K_flowSum] assms(3)[of K_maxUserSum] assms(3)[of K_ulPrbSum]
    assms(3)[of K_ulPrbCount] assms(3)[of K_dlPrbSum] assms(3)[of K_dlPrbCount]
    assms(3)[of K_ulRateSum] assms(3)[of K_ulRateCount] assms(3)[of K_dlRateSum]
    assms(3)[of K_dlRateCount] assms(3)[of K_accessRateSum] assms(3)[of K_accessRateCount]
    assms(3)[of K_dropRateSum] assms(3)[of K_dropRateCount] assms(3)[of K_handoverRateSum]
    assms(3)[of K_handoverRateCount] assms(3)[of K_interferenceSum]
    assms(3)[of K_interferenceCount]
  show ?thesis using assms(1,2) f by (cases a; cases b) simp
qed

lemma getField_mergeAll:
  "getField k (mergeAll t bs) = foldl jsadd (getField k t) (map (getField k) bs)"
  unfolding mergeAll_def by (induction bs arbitrary: t) (simp_all add: getField_mergeBucket)

lemma date_network_mergeAll [simp]:
  "date (mergeAll t bs) = date t" "network (mergeAll t bs) = network t"
  unfolding mergeAll_def by (induction bs arbitrary: t) simp_all

lemma doubleFieldsD: "doubleFields b \<Longrightarrow> isDoubleValue (getField k b)"
  using allKeys_complete[of k] by (auto simp: doubleFields_def list_all_iff)

lemma jsadd_zero_value: "isDoubleValue v \<Longrightarrow> jsadd (Fin 0) v = v"
  by (cases v) (simp_all add: isDoubleValue_def is_double_def)

lemma merge_two_commute:
  assumes "doubleFields a" and "doubleFields b"
  shows "mergeAll (createEmptyBucket d n) [a, b] = mergeAll (createEmptyBucket d n) [b, a]"
proof (rule bucket_eqI)
  fix k
  show "getField k (mergeAll (createEmptyBucket d n) [a, b]) =
        getField k (mergeAll (createEmptyBucket d n) [b, a])"
    using doubleFieldsD[OF assms(1), of k] doubleFieldsD[OF assms(2), of k]
    by (simp add: getField_mergeAll jsadd_zero_value jsadd_commute)
qed simp_all

lemma foldl_jsadd_int:
  "\<bar>z0\<bar> + (\<Sum>z\<leftarrow>zs. \<bar>z\<bar>) < 2 ^ 53 \<Longrightarrow>
   foldl jsadd (Fin (of_int z0)) (map (\<lambda>z. Fin (of_int z)) zs) = Fin (of_int (z0 + sum_list zs))"
proof (induction zs arbitrary: z0)
  case Nil
  then show ?case by simp
next
  case (Cons z zs)
  have nn: "0 \<le> (\<Sum>z\<leftarrow>zs. \<bar>z\<bar>)" by (rule sum_list_nonneg) auto
  from Cons.prems nn have 1: "\<bar>z0 + z\<bar> < 2 ^ 53" by simp
  from Cons.prems have 2: "\<bar>z0 + z\<bar> + (\<Sum>z\<leftarrow>zs. \<bar>z\<bar>) < 2 ^ 53" by simp
  show ?case using Cons.IH[OF 2] by (simp add: round_double_int_sum[OF 1] add.assoc)
qed

lemma integerValuedD:
  assumes "integerValued b"
  shows "getField k b = Fin (of_int (fieldInt k b))"
proof -
  from assms allKeys_complete[of k] have "isInteger (getField k b)"
    by (auto simp: integerValued_def list_all_iff)
  then show ?thesis
    by (auto simp: isInteger_def fieldInt_def split: js_number.splits)
qed

lemma exactTotalsD:
  assumes "exactTotals bs"
  shows "x \<in> set bs \<Longrightarrow> integerValued x" and "absTotal k bs < 2 ^ 53"
  using assms allKeys_complete[of k] by (auto simp: exactTotals_def list_all_iff)

lemma exactTotalsI:
  assumes "\<And>x. x \<in> set bs \<Longrightarrow> integerValued x" and "\<And>k. absTotal k bs < 2 ^ 53"
  shows "exactTotals bs"
  using assms by (auto simp: exactTotals_def list_all_iff)

lemma absTotal_append: "absTotal k (ls @ rs) = absTotal k ls + absTotal k rs"
  by (simp add: absTotal_def)

lemma absTotal_nonneg: "0 \<le> absTotal k bs"
  unfolding absTotal_def by (rule sum_list_nonneg) auto

lemma abs_sum_le_absTotal: "\<bar>\<Sum>x\<leftarrow>bs. fieldInt k x\<bar> \<le> absTotal k bs"
  unfolding absTotal_def by (induction bs) auto

lemma absTotal_perm: "mset bs' = mset bs \<Longrightarrow> absTotal k bs' = absTotal k bs"
proof -
  assume "mset bs' = mset bs"
  then have "mset (map (\<lambda>b. \<bar>fieldInt k b\<bar>) bs') = mset (map (\<lambda>b. \<bar>fieldInt k b\<bar>) bs)"
    by simp
  then have "sum_mset (mset (map (\<lambda>b. \<bar>fieldInt k b\<bar>) bs')) =
             sum_mset (mset (map (\<lambda>b. \<bar>fieldInt k b\<bar>) bs))"
    by (rule arg_cong)
  then show ?thesis by (simp only: absTotal_def sum_mset_sum_list)
qed

lemma sum_fieldInt_perm:
  "mset bs' = mset bs \<Longrightarrow> (\<Sum>x\<leftarrow>bs'. fieldInt k x) = (\<Sum>x\<leftarrow>bs. fieldInt k x)"
proof -
  assume "mset bs' = mset bs"
  then have "mset (map (fieldInt k) bs') = mset (map (fieldInt k) bs)"
    by simp
  then have "sum_mset (mset (map (fieldInt k) bs')) = sum_mset (mset (map (fieldInt k) bs))"
    by (rule arg_cong)
  then show ?thesis by (simp only: sum_mset_sum_list)
qed

lemma exactTotals_perm:
  assumes "exactTotals bs" and "mset bs' = mset bs"
  shows "exactTotals bs'"
proof (rule exactTotalsI)
  fix x assume "x \<in> set bs'"
  with mset_eq_setD[OF assms(2)] have "x \<in> set bs" by simp
  then show "integerValued x" by (rule exactTotalsD(1)[OF assms(1)])
next
  fix k show "absTotal k bs' < 2 ^ 53"
    using exactTotalsD(2)[OF assms(1), of k] by (simp add: absTotal_perm[OF assms(2)])
qed

lemma exactTotals_append:
  assumes "exactTotals (ls @ rs)"
  shows "exactTotals ls" and "exactTotals rs"
proof -
  have b: "absTotal k ls < 2 ^ 53 \<and> absTotal k rs < 2 ^ 53" for k
    using exactTotalsD(2)[OF assms, of k] absTotal_nonneg[of k ls] absTotal_nonneg[of k rs]
    by (simp add: absTotal_append)
  show "exactTotals ls"
    using b by (intro exactTotalsI) (simp_all add: exactTotalsD(1)[OF assms])
  show "exactTotals rs"
    using b by (intro exactTotalsI) (simp_all add: exactTotalsD(1)[OF assms])
qed

lemma getField_mergeAll_exact:
  assumes "exactTotals bs"
  shows "getField k (mergeAll (createEmptyBucket d n) bs) =
           Fin (of_int (\<Sum>x\<leftarrow>bs. fieldInt k x))"
proof -
  have m: "map (getField k) bs = map (\<lambda>z. Fin (of_int z)) (map (fieldInt k) bs)"
    by (simp add: integerValuedD[OF exactTotalsD(1)[OF assms]] cong: map_cong)
  have "(\<Sum>z\<leftarrow>map (fieldInt k) bs. \<bar>z\<bar>) = absTotal k bs"
    by (simp add: absTotal_def comp_def)
  then have b: "\<bar>0::int\<bar> + (\<Sum>z\<leftarrow>map (fieldInt k) bs. \<bar>z\<bar>) < 2 ^ 53"
    using exactTotalsD(2)[OF assms, of k] by simp
  show ?thesis
    unfolding getField_mergeAll m using foldl_jsadd_int[OF b]
    by (simp add: comp_def)
qed

lemma merge_exact_any_order:
  assumes "exactTotals bs" and "mset bs' = mset bs"
  shows "mergeAll (createEmptyBucket d n) bs' = mergeAll (createEmptyBucket d n) bs"
proof (rule bucket_eqI)
  fix k
  show "getField k (mergeAll (createEmptyBucket d n) bs') =
        getField k (mergeAll (createEmptyBucket d n) bs)"
    unfolding getField_mergeAll_exact[OF assms(1)]
      getField_mergeAll_exact[OF exactTotals_perm[OF assms]]
    by (simp add: sum_fieldInt_perm[OF assms(2)])
qed simp_all

lemma merge_exact_any_grouping:
  assumes "exactTotals (ls @ rs)"
  shows "mergeBucket (mergeAll (createEmptyBucket d n) ls) (mergeAll (createEmptyBucket d' n') rs)
         = mergeAll (createEmptyBucket d n) (ls @ rs)"
proof (rule bucket_eqI)
  fix k
  have "\<bar>(\<Sum>x\<leftarrow>ls. fieldInt k x) + (\<Sum>x\<leftarrow>rs. fieldInt k x)\<bar> \<le> absTotal k (ls @ rs)"
    using abs_sum_le_absTotal[of k "ls @ rs"] by simp
  then have t: "\<bar>(\<Sum>x\<leftarrow>ls. fieldInt k x) + (\<Sum>x\<leftarrow>rs. fieldInt k x)\<bar> < 2 ^ 53"
    using exactTotalsD(2)[OF assms, of k] by simp
  show "getField k (mergeBucket (mergeAll (createEmptyBucket d n) ls)
            (mergeAll (createEmptyBucket d' n') rs)) =
        getField k (mergeAll (createEmptyBucket d n) (ls @ rs))"
    unfolding getField_mergeBucket getField_mergeAll_exact[OF assms]
      getField_mergeAll_exact[OF exactTotals_append(1)[OF assms]]
      getField_mergeAll_exact[OF exactTotals_append(2)[OF assms]]
    by (simp add: round_double_int_sum[OF t])
qed simp_all

lemma is_double_int: "\<bar>n\<bar> < 2 ^ 53 \<Longrightarrow> is_double (of_int n)"
  by (simp add: is_double_def round_double_of_int)

lemma doubleFields_flowBucket: "isDoubleValue v \<Longrightarrow> doubleFields (flowBucket d n v)"
  using is_double_int[of 0]
  by (simp add: doubleFields_def allKeys_def flowBucket_def createEmptyBucket_def isDoubleValue_def)

lemma flowSum_merge3:
  "flowSum (mergeAll (createEmptyBucket d n)
      [flowBucket d1 n1 v1, flowBucket d2 n2 v2, flowBucket d3 n3 v3]) =
     jsadd (jsadd (jsadd (Fin 0) v1) v2) v3"
  by (simp add: mergeAll_def mergeBucket_def flowBucket_def createEmptyBucket_def)

lemma flowSum_merge2:
  "flowSum (mergeAll (createEmptyBucket d n) [flowBucket d1 n1 v1, flowBucket d2 n2 v2]) =
     jsadd (jsadd (Fin 0) v1) v2"
  by (simp add: mergeAll_def mergeBucket_def flowBucket_def createEmptyBucket_def)

lemma big_sums:
  "jsadd (jsadd (jsadd (Fin 0) (Fin (10 ^ 20))) (Fin (- (10 ^ 20)))) (Fin 1) = Fin 1"
  "jsadd (jsadd (jsadd (Fin 0) (Fin (- (10 ^ 20)))) (Fin 1)) (Fin (10 ^ 20)) = Fin 0"
  by code_simp+

lemma tenth_sums:
  "jsadd (jsadd (jsadd (Fin 0) (round_double (1 / 10))) (round_double (2 / 10)))
     (round_double (3 / 10)) = Fin (1351079888211149 / 2251799813685248)"
  "jsadd (jsadd (jsadd (Fin 0) (round_double (2 / 10))) (round_double (3 / 10)))
     (round_double (1 / 10)) = Fin (5404319552844595 / 9007199254740992)"
  by code_simp+

lemma is_double_big: "is_double (10 ^ 20)" "is_double (- (10 ^ 20))" "is_double 1"
  by code_simp+

lemma is_double_tenths:
  "isDoubleValue (round_double (1 / 10))" "isDoubleValue (round_double (2 / 10))"
  "isDoubleValue (round_double (3 / 10))"
  by code_simp+

lemma demo_toFixed_small:
  "demo_toFixed (Fin 1) 6 = str ''1.000000''" "demo_toFixed (Fin 0) 6 = str ''0.000000''"
  by (simp_all add: demo_toFixed_def natToString.simps str_def eval_nat_numeral)

lemma demo_Number_small:
  "demo_Number (str ''1.000000'') = Fin 1" "demo_Number (str ''0.000000'') = Fin 0"
  using round_double_of_int[of 1] round_double_of_int[of 0]
  by (simp_all add: demo_Number_def demo_unsigned_def isDigit_def digitsValue_def str_def)

lemma demo_format_small:
  "formatNumber demo_env (Fin 1) = str ''1''" "formatNumber demo_env (Fin 0) = str ''0''"
  by (simp_all add: formatNumber_def demo_env_sel demo_toFixed_small demo_Number_small
        demo_toString_def natToString.simps)
     (simp_all add: str_def)

text \<open>
  Claim C6, as amended. \<open>mergeBucket\<close> adds every sum and every count of the source to the
  target, with the addition of doubles, which is commutative. Two buckets of doubles merged
  into a fresh bucket give the same totals in either order. When every field of every bucket
  is an integer and, for each field, the absolute values of the field over the buckets add
  up to less than \<open>2^53\<close>, so that no addition rounds, the buckets of a date merged in any
  order, or in any grouping, give the same subtotal bucket and the same subtotal row; merging
  in sorted order is one of these orders.
\<close>

theorem merge_order_when_sums_are_exact:
  "getField k (mergeBucket t s) = jsadd (getField k t) (getField k s) \<and>
   jsadd u v = jsadd v u \<and>
   (doubleFields a \<and> doubleFields b \<longrightarrow>
      mergeAll (createEmptyBucket d n) [a, b] = mergeAll (createEmptyBucket d n) [b, a]) \<and>
   (exactTotals bs \<and> mset bs' = mset bs \<longrightarrow>
      mergeAll (createEmptyBucket d n) bs' = mergeAll (createEmptyBucket d n) bs \<and>
      subtotalRow env d bs' = subtotalRow env d bs) \<and>
   (exactTotals bs \<longrightarrow>
      mergeAll (createEmptyBucket d n) (sortBy cmp bs) = mergeAll (createEmptyBucket d n) bs \<and>
      subtotalRow env d (sortBy cmp bs) = subtotalRow env d bs) \<and>
   (exactTotals (ls @ rs) \<longrightarrow>
      mergeBucket (mergeAll (createEmptyBucket d n) ls) (mergeAll (createEmptyBucket d' n') rs) =
        mergeAll (createEmptyBucket d n) (ls @ rs))"
proof -
  have o: "mergeAll (createEmptyBucket dd nn) xs = mergeAll (createEmptyBucket dd nn) bs"
    if "exactTotals bs" "mset xs = mset bs" for dd nn xs
    using that by (rule merge_exact_any_order)
  have g: "mergeBucket (mergeAll (createEmptyBucket d n) ls) (mergeAll (createEmptyBucket d' n') rs) =
        mergeAll (createEmptyBucket d n) (ls @ rs)"
    if "exactTotals (ls @ rs)"
    using that by (rule merge_exact_any_grouping)
  show ?thesis
    using o[where dd = d and nn = n and xs = bs'] o[where dd = d and nn = "[]" and xs = bs']
      o[where dd = d and nn = n and xs = "sortBy cmp bs"]
      o[where dd = d and nn = "[]" and xs = "sortBy cmp bs"]
      g merge_two_commute[of a b d n]
    by (simp add: getField_mergeBucket jsadd_commute[of u v] subtotalRow_def mset_sortBy)
qed

lemma exactTotals_demo:
  "exactTotals [flowBucket d1 n1 (Fin (2 ^ 52)), flowBucket d2 n2 (Fin 1)]"
  by (simp add: exactTotals_def integerValued_def isInteger_def absTotal_def fieldInt_def
        allKeys_def flowBucket_def createEmptyBucket_def)

text \<open>
  The instance of claim C6, as amended, at two buckets with the traffic sums \<open>2^52\<close> and 1.
\<close>

theorem merge_order_when_sums_are_exact_witness:
  "doubleFields (flowBucket (str ''2025-12-01'') (str ''A'') (Fin (2 ^ 52))) \<and>
   doubleFields (flowBucket (str ''2025-12-01'') (str ''B'') (Fin 1)) \<and>
   exactTotals [flowBucket (str ''2025-12-01'') (str ''A'') (Fin (2 ^ 52)),
                flowBucket (str ''2025-12-01'') (str ''B'') (Fin 1)] \<and>
   mset [flowBucket (str ''2025-12-01'') (str ''B'') (Fin 1),
         flowBucket (str ''2025-12-01'') (str ''A'') (Fin (2 ^ 52))] =
     mset [flowBucket (str ''2025-12-01'') (str ''A'') (Fin (2 ^ 52)),
           flowBucket (str ''2025-12-01'') (str ''B'') (Fin 1)] \<and>
   mergeAll (createEmptyBucket (str ''2025-12-01'') [])
       [flowBucket (str ''2025-12-01'') (str ''B'') (Fin 1),
        flowBucket (str ''2025-12-01'') (str ''A'') (Fin (2 ^ 52))] =
     mergeAll (createEmptyBucket (str ''2025-12-01'') [])
       [flowBucket (str ''2025-12-01'') (str ''A'') (Fin (2 ^ 52)),
        flowBucket (str ''2025-12-01'') (str ''B'') (Fin 1)] \<and>
   subtotalRow demo_env (str ''2025-12-01'')
       (sortBy (compareNetwork demo_env)
          [flowBucket (str ''2025-12-01'') (str ''A'') (Fin (2 ^ 52)),
           flowBucket (str ''2025-12-01'') (str ''B'') (Fin 1)]) =
     subtotalRow demo_env (str ''2025-12-01'')
       [flowBucket (str ''2025-12-01'') (str ''A'') (Fin (2 ^ 52)),
        flowBucket (str ''2025-12-01'') (str ''B'') (Fin 1)] \<and>
   mergeBucket (mergeAll (createEmptyBucket (str ''2025-12-01'') [])
                  [flowBucket (str ''2025-12-01'') (str ''A'') (Fin (2 ^ 52))])
       (mergeAll (createEmptyBucket [] []) [flowBucket (str ''2025-12-01'') (str ''B'') (Fin 1)]) =
     mergeAll (createEmptyBucket (str ''2025-12-01'') [])
       ([flowBucket (str ''2025-12-01'') (str ''A'') (Fin (2 ^ 52))]
        @ [flowBucket (str ''2025-12-01'') (str ''B'') (Fin 1)])"
proof -
  let ?a = "flowBucket (str ''2025-12-01'') (str ''A'') (Fin (2 ^ 52))"
  let ?b = "flowBucket (str ''2025-12-01'') (str ''B'') (Fin 1)"
  have d: "doubleFields ?a" "doubleFields ?b"
    using is_double_int[of "2 ^ 52"] is_double_int[of 1]
    by (simp_all add: doubleFields_flowBucket isDoubleValue_def)
  have e: "exactTotals [?a, ?b]" "exactTotals ([?a] @ [?b])"
    using exactTotals_demo by simp_all
  have m: "mset [?b, ?a] = mset [?a, ?b]" by (simp add: add_mset_commute)
  note inst = merge_order_when_sums_are_exact[where a = ?a and b = ?b and bs = "[?a, ?b]"
         and bs' = "[?b, ?a]" and d = "str ''2025-12-01''" and n = "[]"
         and ls = "[?a]" and rs = "[?b]" and d' = "[]" and n' = "[]" and env = demo_env
         and cmp = "compareNetwork demo_env"]
  from inst d e m show ?thesis by blast
qed

text \<open>
  Claim C6 as stated fails, for the addition of doubles is not associative. Three buckets of
  one date with the traffic sums \<open>10^20\<close>, \<open>-10^20\<close> and \<open>1\<close> merge to the sum \<open>1\<close> in this
  order and to \<open>0\<close> in another, and the subtotal rows show \<open>1\<close> and \<open>0\<close>; with the sums
  \<open>0.1\<close>, \<open>0.2\<close> and \<open>0.3\<close> the two subtotal buckets differ in their last bit.
\<close>

theorem merge_order_counterexample:
  "doubleFields (flowBucket (str ''2025-12-01'') (str ''A'') (Fin (10 ^ 20))) \<and>
   doubleFields (flowBucket (str ''2025-12-01'') (str ''B'') (Fin (- (10 ^ 20)))) \<and>
   doubleFields (flowBucket (str ''2025-12-01'') (str ''C'') (Fin 1)) \<and>
   flowSum (mergeAll (createEmptyBucket (str ''2025-12-01'') [])
      [flowBucket (str ''2025-12-01'') (str ''A'') (Fin (10 ^ 20)),
       flowBucket (str ''2025-12-01'') (str ''B'') (Fin (- (10 ^ 20))),
       flowBucket (str ''2025-12-01'') (str ''C'') (Fin 1)]) = Fin 1 \<and>
   flowSum (mergeAll (createEmptyBucket (str ''2025-12-01'') [])
      [flowBucket (str ''2025-12-01'') (str ''B'') (Fin (- (10 ^ 20))),
       flowBucket (str ''2025-12-01'') (str ''C'') (Fin 1),
       flowBucket (str ''2025-12-01'') (str ''A'') (Fin (10 ^ 20))]) = Fin 0 \<and>
   col_flow (subtotalRow demo_env (str ''2025-12-01'')
      [flowBucket (str ''2025-12-01'') (str ''A'') (Fin (10 ^ 20)),
       flowBucket (str ''2025-12-01'') (str ''B'') (Fin (- (10 ^ 20))),
       flowBucket (str ''2025-12-01'') (str ''C'') (Fin 1)]) = str ''1'' \<and>
   col_flow (subtotalRow demo_env (str ''2025-12-01'')
      [flowBucket (str ''2025-12-01'') (str ''B'') (Fin (- (10 ^ 20))),
       flowBucket (str ''2025-12-01'') (str ''C'') (Fin 1),
       flowBucket (str ''2025-12-01'') (str ''A'') (Fin (10 ^ 20))]) = str ''0'' \<and>
   doubleFields (flowBucket (str ''2025-12-01'') (str ''A'') (round_double (1 / 10))) \<and>
   doubleFields (flowBucket (str ''2025-12-01'') (str ''B'') (round_double (2 / 10))) \<and>
   doubleFields (flowBucket (str ''2025-12-01'') (str ''C'') (round_double (3 / 10))) \<and>
   mergeAll (createEmptyBucket (str ''2025-12-01'') [])
      [flowBucket (str ''2025-12-01'') (str ''A'') (round_double (1 / 10)),
       flowBucket (str ''2025-12-01'') (str ''B'') (round_double (2 / 10)),
       flowBucket (str ''2025-12-01'') (str ''C'') (round_double (3 / 10))] \<noteq>
   mergeAll (createEmptyBucket (str ''2025-12-01'') [])
      [flowBucket (str ''2025-12-01'') (str ''B'') (round_double (2 / 10)),
       flowBucket (str ''2025-12-01'') (str ''C'') (round_double (3 / 10)),
       flowBucket (str ''2025-12-01'') (str ''A'') (round_double (1 / 10))]"
proof -
  have d: "doubleFields (flowBucket dd nn (Fin (10 ^ 20)))"
    "doubleFields (flowBucket dd nn (Fin (- (10 ^ 20))))"
    "doubleFields (flowBucket dd nn (Fin 1))" for dd nn
    by (rule doubleFields_flowBucket, simp only: isDoubleValue_def js_number.case is_double_big)+
  have t: "doubleFields (flowBucket dd nn (round_double (1 / 10)))"
    "doubleFields (flowBucket dd nn (round_double (2 / 10)))"
    "doubleFields (flowBucket dd nn (round_double (3 / 10)))" for dd nn
    by (rule doubleFields_flowBucket, rule is_double_tenths)+
  have f: "col_flow (subtotalRow demo_env dd bs) =
             formatNumber demo_env (flowSum (mergeAll (createEmptyBucket dd []) bs))" for dd bs
    by (simp add: subtotalRow_def toOutputRow_def)
  have ne: "x \<noteq> y" if "flowSum x \<noteq> flowSum y" for x y :: AggBucket
    using that by auto
  have u: "mergeAll (createEmptyBucket (str ''2025-12-01'') [])
      [flowBucket (str ''2025-12-01'') (str ''A'') (round_double (1 / 10)),
       flowBucket (str ''2025-12-01'') (str ''B'') (round_double (2 / 10)),
       flowBucket (str ''2025-12-01'') (str ''C'') (round_double (3 / 10))] \<noteq>
   mergeAll (createEmptyBucket (str ''2025-12-01'') [])
      [flowBucket (str ''2025-12-01'') (str ''B'') (round_double (2 / 10)),
       flowBucket (str ''2025-12-01'') (str ''C'') (round_double (3 / 10)),
       flowBucket (str ''2025-12-01'') (str ''A'') (round_double (1 / 10))]"
    by (rule ne, simp only: flowSum_merge3 tenth_sums) simp
  show ?thesis
    by (intro conjI d t u; simp only: f flowSum_merge3 big_sums demo_format_small)
qed

section \<open>An instance of the row accounting\<close>

lemma demo_Number_digits:
  "demo_Number (str ''10'') = Fin 10" "demo_Number (str ''20'') = Fin 20"
  using round_double_of_int[of 10] round_double_of_int[of 20]
  by (simp_all add: demo_Number_def demo_unsigned_def isDigit_def digitsValue_def str_def)

lemma demo_cells_ok:
  "parseNumeric demo_env (cellAt row_ok (ci_flow (buildColIndex REQUIRED_COLUMNS))) = Some (Fin 10)"
  "parseNumeric demo_env (cellAt row_ok (ci_ulPrb (buildColIndex REQUIRED_COLUMNS))) = Some (Fin 20)"
  using demo_Number_digits
  by (simp_all add: buildColIndex_required row_ok_def cellAt_def parseNumeric_def
        cleanNumeric_filter trim_def trimStart_def trimEnd_def isWhiteSpace_def str_def
        demo_env_sel)

lemma demo_rounds:
  "round_double 1 = Fin 1" "round_double 2 = Fin 2" "round_double 10 = Fin 10"
  "round_double 20 = Fin 20" "round_double 40 = Fin 40"
  using round_double_of_int[of 10] round_double_of_int[of 20] round_double_of_int[of 40]
    round_double_of_int[of 1] round_double_of_int[of 2]
  by simp_all

lemma buckets_header_only: "buckets (parseDataRows env header [h]) = []"
  by (simp add: parseDataRows_def processRow_def initialState_def)

lemma pick_columns:
  assumes "\<exists>b'. Pa b' \<and> Pb b' \<and> Pc b' \<and> Pd b' \<and> Pe b' \<and> (\<forall>c \<in> set cols. G c b')"
    and "c1 \<in> set cols" and "c2 \<in> set cols"
  shows "\<exists>b'. Pb b' \<and> Pd b' \<and> Pe b' \<and> G c1 b' \<and> G c2 b'"
  using assms by blast

text \<open>
  The instance of claim C1 at the records of the demo file: a record with an unreadable time,
  one with a blank network, a short one whose traffic cell is missing, and a complete one read
  twice, whose values are added to the bucket of its day and network.
\<close>

theorem data_row_accounting_witness:
  "skippedFor COL_time (parseDataRows demo_env REQUIRED_COLUMNS [REQUIRED_COLUMNS])
     (parseDataRows demo_env REQUIRED_COLUMNS [REQUIRED_COLUMNS, row_bad_time]) \<and>
   skippedFor COL_network (parseDataRows demo_env REQUIRED_COLUMNS [REQUIRED_COLUMNS])
     (parseDataRows demo_env REQUIRED_COLUMNS [REQUIRED_COLUMNS, row_no_network]) \<and>
   skippedRows (parseDataRows demo_env REQUIRED_COLUMNS [REQUIRED_COLUMNS, row_short]) =
     skippedRows (parseDataRows demo_env REQUIRED_COLUMNS [REQUIRED_COLUMNS]) \<and>
   invalidCount (invalidFieldStats
       (parseDataRows demo_env REQUIRED_COLUMNS [REQUIRED_COLUMNS, row_short])) COL_flow =
     invalidCount (invalidFieldStats
       (parseDataRows demo_env REQUIRED_COLUMNS [REQUIRED_COLUMNS])) COL_flow + 1 \<and>
   (\<exists>b. map_of (buckets (parseDataRows demo_env REQUIRED_COLUMNS [REQUIRED_COLUMNS, row_ok]))
          (str ''2025-01-01__NSA'') = Some b \<and>
        date b = str ''2025-01-01'' \<and> network b = str ''NSA'' \<and>
        flowSum b = Fin 10 \<and> ulPrbSum b = Fin 20 \<and> ulPrbCount b = Fin 1) \<and>
   (\<exists>b. map_of (buckets (parseDataRows demo_env REQUIRED_COLUMNS
            [REQUIRED_COLUMNS, row_ok, row_ok])) (str ''2025-01-01__NSA'') = Some b \<and>
        date b = str ''2025-01-01'' \<and> network b = str ''NSA'' \<and>
        flowSum b = Fin 20 \<and> ulPrbSum b = Fin 40 \<and> ulPrbCount b = Fin 2) \<and>
   invalidCount (invalidFieldStats
       (parseDataRows demo_env REQUIRED_COLUMNS [REQUIRED_COLUMNS, row_ok, row_ok])) COL_flow =
     invalidCount (invalidFieldStats
       (parseDataRows demo_env REQUIRED_COLUMNS [REQUIRED_COLUMNS])) COL_flow"
proof -
  let ?ci = "buildColIndex REQUIRED_COLUMNS"
  let ?P = "\<lambda>rows. parseDataRows demo_env REQUIRED_COLUMNS (REQUIRED_COLUMNS # rows)"
  let ?key = "str ''2025-01-01__NSA''"
  have memf: "(COL_flow, ci_flow ?ci, K_flowSum, None) \<in> set (numericColumns ?ci)"
    and memu: "(COL_ulPrb, ci_ulPrb ?ci, K_ulPrbSum, Some K_ulPrbCount) \<in> set (numericColumns ?ci)"
    by (simp_all add: numericColumns_def)
  have ne: "rowNetwork ?ci row_short \<noteq> []" "rowNetwork ?ci row_ok \<noteq> []"
    by (simp_all add: demo_rowNetwork str_def)
  have key: "str ''2025-01-01'' @ str ''__'' @ str ''NSA'' = ?key"
    by (simp add: str_def)
  from data_row_accounting[where header = REQUIRED_COLUMNS and env = demo_env
         and h = REQUIRED_COLUMNS and pre = "[]" and row = row_bad_time]
  have a: "skippedFor COL_time (?P []) (?P [row_bad_time])"
    by (simp add: Let_def demo_rowDay)
  from data_row_accounting[where header = REQUIRED_COLUMNS and env = demo_env
         and h = REQUIRED_COLUMNS and pre = "[]" and row = row_no_network]
  have b: "skippedFor COL_network (?P []) (?P [row_no_network])"
    by (simp add: Let_def demo_rowDay demo_rowNetwork)
  note short = data_row_accounting[where header = REQUIRED_COLUMNS and env = demo_env
      and h = REQUIRED_COLUMNS and pre = "[]" and row = row_short, unfolded Let_def,
      THEN conjunct2, THEN conjunct2, THEN conjunct2, THEN spec, THEN mp,
      OF conjI[OF demo_rowDay(3) ne(1)]]
  have c1: "skippedRows (?P [row_short]) = skippedRows (?P [])"
    using short[THEN conjunct1] by simp
  have c2: "invalidCount (invalidFieldStats (?P [row_short])) COL_flow =
      invalidCount (invalidFieldStats (?P [])) COL_flow + 1"
    using pick_columns[OF short[THEN conjunct2, THEN conjunct2, THEN conjunct2] memf memf]
    by (clarsimp simp add: demo_flow_invalid)
  note first = data_row_accounting[where header = REQUIRED_COLUMNS and env = demo_env
      and h = REQUIRED_COLUMNS and pre = "[]" and row = row_ok, unfolded Let_def,
      THEN conjunct2, THEN conjunct2, THEN conjunct2, THEN spec, THEN mp,
      OF conjI[OF demo_rowDay(4) ne(2)], THEN conjunct2, THEN conjunct2, THEN conjunct2]
  have r1: "\<exists>b. map_of (buckets (?P [row_ok])) ?key = Some b \<and>
        date b = str ''2025-01-01'' \<and> network b = str ''NSA'' \<and>
        flowSum b = Fin 10 \<and> ulPrbSum b = Fin 20 \<and> ulPrbCount b = Fin 1 \<and>
        invalidCount (invalidFieldStats (?P [row_ok])) COL_flow =
          invalidCount (invalidFieldStats (?P [])) COL_flow"
    using pick_columns[OF first memf memu]
    by (clarsimp simp add: demo_rowNetwork key demo_cells_ok buckets_header_only demo_rounds
          createEmptyBucket_def)
  then obtain b1 where b1: "map_of (buckets (?P [row_ok])) ?key = Some b1"
      "date b1 = str ''2025-01-01''" "network b1 = str ''NSA''"
      "flowSum b1 = Fin 10" "ulPrbSum b1 = Fin 20" "ulPrbCount b1 = Fin 1"
    and i1: "invalidCount (invalidFieldStats (?P [row_ok])) COL_flow =
          invalidCount (invalidFieldStats (?P [])) COL_flow"
    by blast
  note second = data_row_accounting[where header = REQUIRED_COLUMNS and env = demo_env
      and h = REQUIRED_COLUMNS and pre = "[row_ok]" and row = row_ok, unfolded Let_def,
      THEN conjunct2, THEN conjunct2, THEN conjunct2, THEN spec, THEN mp,
      OF conjI[OF demo_rowDay(4) ne(2)], THEN conjunct2, THEN conjunct2, THEN conjunct2]
  have r2: "\<exists>b. map_of (buckets (?P [row_ok, row_ok])) ?key = Some b \<and>
        date b = str ''2025-01-01'' \<and> network b = str ''NSA'' \<and>
        flowSum b = Fin 20 \<and> ulPrbSum b = Fin 40 \<and> ulPrbCount b = Fin 2 \<and>
        invalidCount (invalidFieldStats (?P [row_ok, row_ok])) COL_flow =
          invalidCount (invalidFieldStats (?P [row_ok])) COL_flow"
    using pick_columns[OF second memf memu]
    by (clarsimp simp add: demo_rowNetwork key demo_cells_ok b1 demo_rounds)
  from r1 have r1': "\<exists>b. map_of (buckets (?P [row_ok])) ?key = Some b \<and>
        date b = str ''2025-01-01'' \<and> network b = str ''NSA'' \<and>
        flowSum b = Fin 10 \<and> ulPrbSum b = Fin 20 \<and> ulPrbCount b = Fin 1"
    by blast
  from r2 have r2': "\<exists>b. map_of (buckets (?P [row_ok, row_ok])) ?key = Some b \<and>
        date b = str ''2025-01-01'' \<and> network b = str ''NSA'' \<and>
        flowSum b = Fin 20 \<and> ulPrbSum b = Fin 40 \<and> ulPrbCount b = Fin 2"
    and i2: "invalidCount (invalidFieldStats (?P [row_ok, row_ok])) COL_flow =
          invalidCount (invalidFieldStats (?P [row_ok])) COL_flow"
    by blast+
  from i1 i2 have i: "invalidCount (invalidFieldStats (?P [row_ok, row_ok])) COL_flow =
          invalidCount (invalidFieldStats (?P [])) COL_flow"
    by simp
  show ?thesis
    by (intro conjI) (rule a b c1 c2 r1' r2' i)+
qed

end
